theory Spec2Isabelle
  imports Complex_Main
begin

section \<open>Orbital mechanics and procedural generation of a planetary system\<close>

text \<open>
  A shallow embedding of the Kepler solver (\<open>solveKepler\<close>) and of the generator
  (\<open>generateSolarSystem\<close>). The numbers of the source are modelled as real numbers:
  arithmetic, \<open>sin\<close>, \<open>cos\<close>, \<open>sqrt\<close> and \<open>Math.pow\<close> are exact, and the rounding of IEEE
  doubles, infinities and NaN are not modelled. In particular a division by zero, which
  gives an infinity or NaN in the source, gives 0 here; the solver divides by
  \<open>1 - e * cos E\<close>, which is not zero when \<open>-1 < e < 1\<close>, and the generator by \<open>1 - e\<close> with
  \<open>e < 0.2\<close>. The properties proved below are those that do not rest on exact arithmetic:
  the bound on the iterations of the solver, and for the generator the separation of the
  orbits (with its margin of 20), the placement of the belts and the identifiers.
  \<open>getPositionOnOrbit\<close>, whose results are decided by the rounding of \<open>sin\<close>, \<open>cos\<close> and \<open>%\<close>,
  is not embedded.

  The fields \<open>id\<close> and \<open>size\<close> of the source are \<open>id_str\<close> and \<open>size_px\<close> here, since \<open>id\<close> and
  \<open>size\<close> are constants of HOL.
\<close>

subsection \<open>The Kepler solver\<close>

text \<open>
  The Newton-Raphson loop of \<open>solveKepler\<close> on the state \<open>(E, delta, iter)\<close>;
  \<open>kepler_step\<close> is its body.
\<close>

definition maxIter :: nat where
  "maxIter = 30"

definition kepler_step :: "real \<Rightarrow> real \<Rightarrow> real \<times> real \<times> nat \<Rightarrow> real \<times> real \<times> nat" where
  "kepler_step M e s =
     (case s of (E, delta, iter) \<Rightarrow>
        let delta' = (E - e * sin E - M) / (1 - e * cos E);
            E' = E - delta'
        in (E', delta', iter + 1))"

function kepler_loop :: "real \<Rightarrow> real \<Rightarrow> real \<Rightarrow> real \<times> real \<times> nat \<Rightarrow> real \<times> real \<times> nat" where
  "kepler_loop M e tolerance (E, delta, iter) =
     (if \<bar>delta\<bar> > tolerance \<and> iter < maxIter
      then kepler_loop M e tolerance (kepler_step M e (E, delta, iter))
      else (E, delta, iter))"
  by pat_completeness auto
termination
  by (relation "measure (\<lambda>(M, e, tolerance, E, delta, iter). maxIter - iter)")
     (auto simp: kepler_step_def Let_def)

declare kepler_loop.simps [simp del]

definition solveKepler :: "real \<Rightarrow> real \<Rightarrow> real \<Rightarrow> real" where
  "solveKepler M e tolerance = fst (kepler_loop M e tolerance (M, 1, 0))"

text \<open>The default value of the parameter \<open>tolerance\<close>.\<close>

definition tolerance_default :: real where
  "tolerance_default = 1 / 10 ^ 6"

subsection \<open>Types (types.ts)\<close>

datatype PlanetType = ROCKY | GAS_GIANT | ICE_GIANT | DWARF

text \<open>The string value of each member of the enum.\<close>

fun PlanetType_value :: "PlanetType \<Rightarrow> string" where
  "PlanetType_value ROCKY = ''Rocky''"
| "PlanetType_value GAS_GIANT = ''Gas Giant''"
| "PlanetType_value ICE_GIANT = ''Ice Giant''"
| "PlanetType_value DWARF = ''Dwarf''"

record Orbit =
  a :: real
  e :: real
  omega :: real
  period :: real
  meanAnomaly0 :: real

record Entity =
  id_str :: string
  radius :: real
  color :: string
  orbit :: Orbit
  name :: string

record Moon = Entity +
  parentId :: string

record Planet = Entity +
  type :: PlanetType
  moons :: "Moon list"
  description :: string

record Particle =
  angle :: real
  radius :: real
  speed :: real
  size_px :: real

record AsteroidBelt =
  minRadius :: real
  maxRadius :: real
  count :: int
  particles :: "Particle list"

record Star =
  radius :: real
  color :: string
  mass :: real

record SolarSystem =
  star :: Star
  planets :: "Planet list"
  asteroidBelts :: "AsteroidBelt list"

subsection \<open>The source of randomness\<close>

text \<open>
  \<^verbatim>\<open>Math.random()\<close> returns a number that is at least 0 and less than 1, and advances a
  global generator. The model makes both explicit: a \<open>random_source\<close> is the sequence of
  values the generator is going to return, and every function that draws takes the number
  \<open>c\<close> of values consumed so far and returns the new one.
\<close>

typedef random_value = "{r :: real. 0 \<le> r \<and> r < 1}"
  by (rule exI [of _ 0]) simp

setup_lifting type_definition_random_value

type_synonym random_source = "nat \<Rightarrow> random_value"

definition Math_random :: "random_source \<Rightarrow> nat \<Rightarrow> real \<times> nat" where
  "Math_random rnd c = (Rep_random_value (rnd c), Suc c)"

definition randomRange :: "random_source \<Rightarrow> real \<Rightarrow> real \<Rightarrow> nat \<Rightarrow> real \<times> nat" where
  "randomRange rnd min max c =
     (let (r, c') = Math_random rnd c in (r * (max - min) + min, c'))"
  for min max

definition randomInt :: "random_source \<Rightarrow> int \<Rightarrow> int \<Rightarrow> nat \<Rightarrow> int \<times> nat" where
  "randomInt rnd min max c =
     (let (r, c') = Math_random rnd c in (\<lfloor>r * of_int (max - min + 1)\<rfloor> + min, c'))"
  for min max

subsection \<open>Numbers in template literals\<close>

text \<open>
  A template literal prints an integer-valued number as its decimal digits, with a
  leading minus sign when it is negative.
\<close>

definition digit_char :: "nat \<Rightarrow> char" where
  "digit_char d = char_of (48 + d)"

fun string_of_nat :: "nat \<Rightarrow> string" where
  "string_of_nat n =
     (if n < 10 then [digit_char n] else string_of_nat (n div 10) @ [digit_char (n mod 10)])"

declare string_of_nat.simps [simp del]

definition string_of_int :: "int \<Rightarrow> string" where
  "string_of_int i =
     (if i < 0 then CHR ''-'' # string_of_nat (nat (- i)) else string_of_nat (nat i))"

text \<open>
  \<^verbatim>\<open>arr[i]\<close> inside a template literal: an index outside the array reads
  \<^verbatim>\<open>undefined\<close>, which prints as that word.
\<close>

definition js_index_str :: "string list \<Rightarrow> int \<Rightarrow> string" where
  "js_index_str arr i = (if 0 \<le> i \<and> nat i < length arr then arr ! nat i else ''undefined'')"

text \<open>
  \<^verbatim>\<open>arr[i]\<close> where a property of the element is read next: \<open>None\<close> is
  \<^verbatim>\<open>undefined\<close>, on which the property access throws.
\<close>

definition js_index :: "'a list \<Rightarrow> int \<Rightarrow> 'a option" where
  "js_index arr i = (if 0 \<le> i \<and> nat i < length arr then Some (arr ! nat i) else None)"

datatype error = TypeError

subsection \<open>Names and colours\<close>

definition prefixes :: "string list" where
  "prefixes = [''Kep'', ''Gliese'', ''Trappist'', ''Proxima'', ''Sol'', ''Vega'', ''Altair'',
     ''Deneb'', ''K2'', ''HD'']"

definition suffixes :: "string list" where
  "suffixes = [''Prime'', ''Major'', ''Minor'', ''b'', ''c'', ''d'', ''x'', ''Zeta'', ''I'', ''II'',
     ''III'']"

definition generateName :: "random_source \<Rightarrow> nat \<Rightarrow> string \<times> nat" where
  "generateName rnd c =
     (let (p, c1) = randomInt rnd 0 (int (length prefixes) - 1) c;
          (n, c2) = randomInt rnd 10 999 c1;
          (s, c3) = randomInt rnd 0 (int (length suffixes) - 1) c2
      in (js_index_str prefixes p @ ''-'' @ string_of_int n @ '' '' @ js_index_str suffixes s, c3))"

definition roms :: "string list" where
  "roms = [''I'', ''II'', ''III'', ''IV'', ''V'', ''VI'', ''VII'', ''VIII'', ''IX'', ''X'']"

text \<open>
  \<^verbatim>\<open>roms[num - 1] || num.toString()\<close>: every entry of \<open>roms\<close> is a non-empty string, so the
  right operand is taken exactly when the index is outside the table.
\<close>

definition toRoman :: "int \<Rightarrow> string" where
  "toRoman num =
     (if 0 \<le> num - 1 \<and> nat (num - 1) < length roms then roms ! nat (num - 1)
      else string_of_int num)"

text \<open>
  The template \<^verbatim>\<open>hsl(${hue(..)}, ${sat(..)}%, ${lig(..)}%)\<close> of \<open>generateColor\<close>, whose
  three helpers \<open>hue\<close>, \<open>sat\<close> and \<open>lig\<close> are all \<open>randomInt\<close>, drawn from left to right.
\<close>

definition hsl :: "random_source \<Rightarrow> int \<times> int \<Rightarrow> int \<times> int \<Rightarrow> int \<times> int \<Rightarrow> nat \<Rightarrow> string \<times> nat" where
  "hsl rnd hueR satR ligR c =
     (let (h, c1) = randomInt rnd (fst hueR) (snd hueR) c;
          (s, c2) = randomInt rnd (fst satR) (snd satR) c1;
          (l, c3) = randomInt rnd (fst ligR) (snd ligR) c2
      in (''hsl('' @ string_of_int h @ '', '' @ string_of_int s @ ''%, '' @ string_of_int l @ ''%)'',
          c3))"

definition generateColor :: "random_source \<Rightarrow> string \<Rightarrow> nat \<Rightarrow> string \<times> nat" where
  "generateColor rnd type c =
     (if type = PlanetType_value ROCKY then
        (let (r, c1) = Math_random rnd c
         in if r > 0.5 then hsl rnd (100, 220) (40, 80) (30, 60) c1
            else hsl rnd (0, 40) (50, 90) (40, 70) c1)
      else if type = PlanetType_value GAS_GIANT then hsl rnd (20, 50) (60, 90) (50, 80) c
      else if type = PlanetType_value ICE_GIANT then hsl rnd (180, 260) (60, 90) (60, 85) c
      else if type = PlanetType_value DWARF then hsl rnd (0, 0) (0, 10) (40, 80) c
      else if type = ''STAR'' then hsl rnd (30, 60) (80, 100) (50, 80) c
      else (''#888'', c))"
  for type

subsection \<open>Planets and moons\<close>

text \<open>The body of the loop over the moons of planet \<open>i\<close>, for the moon of index \<open>m\<close>.\<close>

definition generateMoon ::
  "random_source \<Rightarrow> nat \<Rightarrow> string \<Rightarrow> string \<Rightarrow> real \<Rightarrow> nat \<Rightarrow> nat \<Rightarrow> Moon \<times> nat" where
  "generateMoon rnd i planetName planetId planetRadius m c =
     (let (r1, c1) = randomRange rnd 5 15 c;
          (r2, c2) = randomRange rnd 4 8 c1;
          moonDist = planetRadius + r1 + (real m * r2);
          (moonRadius, c3) = randomRange rnd 0.8 1.8 c2;
          (moonE, c4) = randomRange rnd 0 0.1 c3;
          (moonOmega, c5) = randomRange rnd 0 (pi * 2) c4;
          (moonM0, c6) = randomRange rnd 0 (pi * 2) c5
      in (\<lparr>id_str = ''moon-'' @ string_of_nat i @ ''-'' @ string_of_nat m,
           Entity.radius = moonRadius,
           Entity.color = ''#ccc'',
           orbit = \<lparr>a = moonDist, e = moonE, omega = moonOmega,
                     period = (moonDist powr 1.5) * 0.15, meanAnomaly0 = moonM0\<rparr>,
           name = planetName @ '' '' @ toRoman (int m + 1),
           parentId = planetId\<rparr>, c6))"

function moonLoop ::
  "random_source \<Rightarrow> nat \<Rightarrow> string \<Rightarrow> string \<Rightarrow> real \<Rightarrow> int \<Rightarrow> nat \<Rightarrow> Moon list \<Rightarrow> nat
     \<Rightarrow> Moon list \<times> nat" where
  "moonLoop rnd i planetName planetId planetRadius numMoons m ms c =
     (if int m < numMoons then
        (let (moon, c') = generateMoon rnd i planetName planetId planetRadius m c
         in moonLoop rnd i planetName planetId planetRadius numMoons (Suc m) (ms @ [moon]) c')
      else (ms, c))"
  by pat_completeness auto
termination
  by (relation "measure (\<lambda>(rnd, i, planetName, planetId, planetRadius, numMoons, m, ms, c).
        nat (numMoons - int m))") auto

declare moonLoop.simps [simp del]

text \<open>
  Three blocks of the body of the loop over the planets, each a definition of its own: the
  choice of the type from the roll (the frost line), the radius drawn for a type, and the
  moons of the planet.
\<close>

definition planetType :: "nat \<Rightarrow> real \<Rightarrow> real \<Rightarrow> PlanetType" where
  "planetType i semiMajorAxis roll =
     (if semiMajorAxis > 400 \<or> i > 4 then
        (if roll > 0.55 then GAS_GIANT
         else if roll > 0.25 then ICE_GIANT
         else if roll > 0.1 then ROCKY
         else DWARF)
      else
        (if roll < 0.15 then DWARF else ROCKY))"

definition planetRadius :: "random_source \<Rightarrow> PlanetType \<Rightarrow> nat \<Rightarrow> real \<times> nat" where
  "planetRadius rnd type c =
     (if type = GAS_GIANT then randomRange rnd 10 16 c
      else if type = ICE_GIANT then randomRange rnd 7 11 c
      else if type = DWARF then randomRange rnd 1.5 2.5 c
      else randomRange rnd 3 6 c)"
  for type

definition planetMoons ::
  "random_source \<Rightarrow> nat \<Rightarrow> string \<Rightarrow> string \<Rightarrow> real \<Rightarrow> PlanetType \<Rightarrow> nat \<Rightarrow> Moon list \<times> nat" where
  "planetMoons rnd i planetName planetId planetRadius type c =
     (if type \<noteq> DWARF then
        (let (numMoons, c') =
               (if type = GAS_GIANT then randomInt rnd 3 8 c
                else if type = ICE_GIANT then randomInt rnd 2 5 c
                else randomInt rnd 0 2 c)
         in moonLoop rnd i planetName planetId planetRadius numMoons 0 [] c')
      else ([], c))"
  for planetRadius type

text \<open>
  The body of the loop over the planets, for the planet of index \<open>i\<close>: the planet with its
  moons, the new value of \<open>previousAphelion\<close>, and the randomness consumed.
\<close>

definition generatePlanet :: "random_source \<Rightarrow> nat \<Rightarrow> real \<Rightarrow> nat \<Rightarrow> Planet \<times> real \<times> nat" where
  "generatePlanet rnd i previousAphelion c =
     (let isInnerSystem = i < 4;
          minGap = (if isInnerSystem then 20 else 80);
          maxGap = (if isInnerSystem then 60 else 200);
          (gap, c1) = randomRange rnd minGap maxGap c;
          (eccentricity, c2) = randomRange rnd 0.01 0.2 c1;
          perihelion = previousAphelion + gap;
          semiMajorAxis = perihelion / (1 - eccentricity);
          (roll, c3) = Math_random rnd c2;
          type = planetType i semiMajorAxis roll;
          (radius, c4) = planetRadius rnd type c3;
          (color, c5) = generateColor rnd (PlanetType_value type) c4;
          period = (semiMajorAxis powr 1.5) * 0.005;
          (planetName, c6) = generateName rnd c5;
          planetId = ''planet-'' @ string_of_nat i;
          (omega, c7) = randomRange rnd 0 (pi * 2) c6;
          (meanAnomaly0, c8) = randomRange rnd 0 (pi * 2) c7;
          previousAphelion' = semiMajorAxis * (1 + eccentricity);
          (moons, c9) = planetMoons rnd i planetName planetId radius type c8
      in (\<lparr>id_str = planetId,
           Entity.radius = radius,
           Entity.color = color,
           orbit = \<lparr>a = semiMajorAxis, e = eccentricity, omega = omega, period = period,
                     meanAnomaly0 = meanAnomaly0\<rparr>,
           name = planetName,
           type = type,
           moons = moons,
           description = ''A '' @ PlanetType_value type @ '' planet.''\<rparr>,
          previousAphelion', c9))"

function planetLoop ::
  "random_source \<Rightarrow> int \<Rightarrow> nat \<Rightarrow> real \<Rightarrow> SolarSystem \<Rightarrow> nat \<Rightarrow> SolarSystem \<times> nat" where
  "planetLoop rnd numPlanets i previousAphelion system c =
     (if int i < numPlanets then
        (let (planet, previousAphelion', c') = generatePlanet rnd i previousAphelion c
         in planetLoop rnd numPlanets (Suc i) previousAphelion'
              (system\<lparr>planets := planets system @ [planet]\<rparr>) c')
      else (system, c))"
  by pat_completeness auto
termination
  by (relation "measure (\<lambda>(rnd, numPlanets, i, previousAphelion, system, c).
        nat (numPlanets - int i))") auto

declare planetLoop.simps [simp del]

subsection \<open>Asteroid belts\<close>

text \<open>The loop that collects the indices of the gaps wide enough for a belt.\<close>

function gapLoop :: "SolarSystem \<Rightarrow> nat \<Rightarrow> nat list \<Rightarrow> nat list" where
  "gapLoop system i validGaps =
     (if int i < int (length (planets system)) - 1 then
        (let p1 = planets system ! i;
             p2 = planets system ! (i + 1);
             p1Aphelion = a (orbit p1) * (1 + e (orbit p1));
             p2Perihelion = a (orbit p2) * (1 - e (orbit p2));
             safetyMargin = 15;
             minBeltWidth = 20
         in gapLoop system (Suc i)
              (if p2Perihelion > p1Aphelion + (safetyMargin * 2) + minBeltWidth
               then validGaps @ [i] else validGaps))
      else validGaps)"
  by pat_completeness auto
termination
  by (relation "measure (\<lambda>(system, i, validGaps). length (planets system) - i)") auto

declare gapLoop.simps [simp del]

text \<open>
  The shuffle, from \<open>i = validGaps.length - 1\<close> down to 1. The index \<open>j\<close> lies in \<open>0..i\<close>
  since the random value is below 1, so both reads of the swap are inside the array.
\<close>

function shuffleLoop :: "random_source \<Rightarrow> nat list \<Rightarrow> int \<Rightarrow> nat \<Rightarrow> nat list \<times> nat" where
  "shuffleLoop rnd validGaps i c =
     (if i > 0 then
        (let (r, c') = Math_random rnd c;
             j = \<lfloor>r * (of_int i + 1)\<rfloor>
         in shuffleLoop rnd
              (validGaps[nat i := validGaps ! nat j, nat j := validGaps ! nat i]) (i - 1) c')
      else (validGaps, c))"
  by pat_completeness auto
termination
  by (relation "measure (\<lambda>(rnd, validGaps, i, c). nat i)") auto

declare shuffleLoop.simps [simp del]

text \<open>The loop that fills a belt with \<open>count\<close> particles.\<close>

function particleLoop ::
  "random_source \<Rightarrow> real \<Rightarrow> real \<Rightarrow> int \<Rightarrow> nat \<Rightarrow> Particle list \<Rightarrow> nat \<Rightarrow> Particle list \<times> nat" where
  "particleLoop rnd minR maxR cnt k ps c =
     (if int k < cnt then
        (let (r, c1) = randomRange rnd minR maxR c;
             (ang, c2) = randomRange rnd 0 (pi * 2) c1;
             (sz, c3) = randomRange rnd 0.5 1.5 c2
         in particleLoop rnd minR maxR cnt (Suc k)
              (ps @ [\<lparr>angle = ang, Particle.radius = r, speed = (1 / sqrt r) * 5, size_px = sz\<rparr>]) c3)
      else (ps, c))"
  by pat_completeness auto
termination
  by (relation "measure (\<lambda>(rnd, minR, maxR, cnt, k, ps, c). nat (cnt - int k))") auto

declare particleLoop.simps [simp del]

text \<open>
  \<^verbatim>\<open>selectedGaps.forEach\<close>: one inner belt per selected gap. Reading \<open>orbit\<close> from a
  planet that is \<^verbatim>\<open>undefined\<close> throws.
\<close>

fun innerBelts :: "random_source \<Rightarrow> nat list \<Rightarrow> SolarSystem \<Rightarrow> nat \<Rightarrow> error + SolarSystem \<times> nat" where
  "innerBelts rnd [] system c = Inr (system, c)"
| "innerBelts rnd (idx # selectedGaps) system c =
     (case (js_index (planets system) (int idx), js_index (planets system) (int idx + 1)) of
        (Some p1, Some p2) \<Rightarrow>
          (let p1Aphelion = a (orbit p1) * (1 + e (orbit p1));
               p2Perihelion = a (orbit p2) * (1 - e (orbit p2));
               safetyMargin = 15;
               minR = p1Aphelion + safetyMargin;
               maxR = p2Perihelion - safetyMargin;
               cnt = \<lfloor>(maxR - minR) * 20\<rfloor>;
               (ps, c') = particleLoop rnd minR maxR cnt 0 [] c
           in innerBelts rnd selectedGaps
                (system\<lparr>asteroidBelts := asteroidBelts system @
                   [\<lparr>minRadius = minR, maxRadius = maxR, count = cnt, particles = ps\<rparr>]\<rparr>) c')
      | _ \<Rightarrow> Inl TypeError)"

subsection \<open>The generator\<close>

text \<open>
  \<open>generateSolarSystem\<close> in the three parts that its comments mark: the star and the
  planets, the inner asteroid belts, the outer belt. The system under construction and the
  randomness consumed pass from one part to the next.
\<close>

definition generatePlanets :: "random_source \<Rightarrow> nat \<Rightarrow> SolarSystem \<times> nat" where
  "generatePlanets rnd c =
     (let (starRadius, c1) = randomRange rnd 5 8 c;
          (starColor, c2) = generateColor rnd ''STAR'' c1;
          system = \<lparr>star = \<lparr>Star.radius = starRadius, color = starColor, mass = 1\<rparr>,
                     planets = [], asteroidBelts = []\<rparr>;
          (numPlanets, c3) = randomInt rnd 7 12 c2;
          previousAphelion = Star.radius (star system) + 5
      in planetLoop rnd numPlanets 0 previousAphelion system c3)"

definition generateInnerBelts ::
  "random_source \<Rightarrow> SolarSystem \<Rightarrow> nat \<Rightarrow> error + SolarSystem \<times> nat" where
  "generateInnerBelts rnd system c =
     (let validGaps = gapLoop system 0 [];
          (roll, c1) = Math_random rnd c;
          numInnerBelts = (if roll < 0.05 then 3 else if roll < 0.25 then 2 else 1);
          numInnerBelts = min numInnerBelts (int (length validGaps));
          (validGaps, c2) = shuffleLoop rnd validGaps (int (length validGaps) - 1) c1;
          selectedGaps = take (nat numInnerBelts) validGaps
      in innerBelts rnd selectedGaps system c2)"

definition generateOuterBelt :: "random_source \<Rightarrow> SolarSystem \<Rightarrow> nat \<Rightarrow> error + SolarSystem" where
  "generateOuterBelt rnd system c =
     (case js_index (planets system) (int (length (planets system)) - 1) of
        None \<Rightarrow> Inl TypeError
      | Some lastPlanet \<Rightarrow>
          (let pAphelion = a (orbit lastPlanet) * (1 + e (orbit lastPlanet));
               minR = pAphelion + 40;
               (w, c1) = randomRange rnd 80 150 c;
               maxR = minR + w;
               cnt = 2500;
               (ps, c2) = particleLoop rnd minR maxR cnt 0 [] c1
           in Inr (system\<lparr>asteroidBelts := asteroidBelts system @
                 [\<lparr>minRadius = minR, maxRadius = maxR, count = cnt, particles = ps\<rparr>]\<rparr>)))"

definition generateSolarSystem :: "random_source \<Rightarrow> real \<Rightarrow> real \<Rightarrow> error + SolarSystem" where
  "generateSolarSystem rnd width height =
     (let (system, c) = generatePlanets rnd 0
      in case generateInnerBelts rnd system c of
           Inl err \<Rightarrow> Inl err
         | Inr (system, c) \<Rightarrow> generateOuterBelt rnd system c)"

subsection \<open>Sample streams of random values\<close>

text \<open>
  Two concrete streams on which the properties are instantiated: the constant stream
  \<open>1/2\<close>, and a stream that is \<open>7/10\<close> everywhere but at the draws 19 (\<open>9/10\<close>) and 25 (\<open>0\<close>),
  counted from 0, which are the base offsets of the first two moons of the first planet.
\<close>

lift_definition stream_half :: random_source is "\<lambda>n. 1 / 2"
  by simp

lift_definition stream_moons :: random_source is
  "\<lambda>n. if n = 19 then 9 / 10 else if n = 25 then 0 else 7 / 10"
  by simp

subsection \<open>Notation for the properties\<close>

text \<open>
  The orbits of an inner planet \<open>p1\<close> and of the next planet \<open>p2\<close> are separated when the
  aphelion of \<open>p1\<close> is below the perihelion of \<open>p2\<close>; the gap after the planet of index \<open>i\<close>
  is wide when it passes the test of the loop that collects the valid gaps.
\<close>

abbreviation (input) separated :: "Planet \<Rightarrow> Planet \<Rightarrow> bool" where
  "separated p1 p2 \<equiv> a (orbit p1) * (1 + e (orbit p1)) < a (orbit p2) * (1 - e (orbit p2))"

abbreviation (input) wide_gap :: "Planet list \<Rightarrow> nat \<Rightarrow> bool" where
  "wide_gap ps i \<equiv>
     a (orbit (ps ! (i + 1))) * (1 - e (orbit (ps ! (i + 1))))
       > a (orbit (ps ! i)) * (1 + e (orbit (ps ! i))) + (15 * 2) + 20"

section \<open>Properties\<close>

subsection \<open>The orbit solver\<close>

lemma kepler_step_iter: "snd (snd (kepler_step M ecc s)) = Suc (snd (snd s))"
  by (simp add: kepler_step_def Let_def split: prod.splits)

lemma kepler_loop_char:
  "\<exists>n. iter + n \<le> max iter maxIter
      \<and> kepler_loop M ecc tol (E, delta, iter) = (kepler_step M ecc ^^ n) (E, delta, iter)
      \<and> (\<forall>j<n. tol < \<bar>fst (snd ((kepler_step M ecc ^^ j) (E, delta, iter)))\<bar>)
      \<and> (iter + n < maxIter \<longrightarrow> \<bar>fst (snd ((kepler_step M ecc ^^ n) (E, delta, iter)))\<bar> \<le> tol)"
proof (induction M ecc tol "(E, delta, iter)" arbitrary: E delta iter rule: kepler_loop.induct)
  case (1 M ecc tol E delta iter)
  show ?case
  proof (cases "\<bar>delta\<bar> > tol \<and> iter < maxIter")
    case False
    then have "kepler_loop M ecc tol (E, delta, iter) = (E, delta, iter)"
      by (subst kepler_loop.simps) auto
    with False show ?thesis
      by (intro exI[of _ 0]) auto
  next
    case True
    obtain E' d' i' where st: "kepler_step M ecc (E, delta, iter) = (E', d', i')"
      by (cases "kepler_step M ecc (E, delta, iter)") auto
    have i': "i' = Suc iter" using kepler_step_iter[of M ecc "(E, delta, iter)"] st by simp
    from "1"[OF True st] obtain n where n:
      "i' + n \<le> max i' maxIter"
      "kepler_loop M ecc tol (E', d', i') = (kepler_step M ecc ^^ n) (E', d', i')"
      "\<forall>j<n. tol < \<bar>fst (snd ((kepler_step M ecc ^^ j) (E', d', i')))\<bar>"
      "i' + n < maxIter \<longrightarrow> \<bar>fst (snd ((kepler_step M ecc ^^ n) (E', d', i')))\<bar> \<le> tol"
      by blast
    have loop: "kepler_loop M ecc tol (E, delta, iter) = kepler_loop M ecc tol (E', d', i')"
      using True st by (subst kepler_loop.simps) auto
    have pow: "\<And>j. (kepler_step M ecc ^^ Suc j) (E, delta, iter) = (kepler_step M ecc ^^ j) (E', d', i')"
      using st by (simp add: funpow_swap1)
    show ?thesis
    proof (intro exI[of _ "Suc n"] conjI)
      show "iter + Suc n \<le> max iter maxIter" using n(1) i' True by auto
      show "kepler_loop M ecc tol (E, delta, iter) = (kepler_step M ecc ^^ Suc n) (E, delta, iter)"
        using loop n(2) pow by simp
      show "\<forall>j<Suc n. tol < \<bar>fst (snd ((kepler_step M ecc ^^ j) (E, delta, iter)))\<bar>"
      proof (intro allI impI)
        fix j assume "j < Suc n"
        show "tol < \<bar>fst (snd ((kepler_step M ecc ^^ j) (E, delta, iter)))\<bar>"
        proof (cases j)
          case 0 then show ?thesis using True by simp
        next
          case (Suc j')
          then have "j' < n" using \<open>j < Suc n\<close> by simp
          then show ?thesis using n(3) pow Suc by simp
        qed
      qed
      show "iter + Suc n < maxIter \<longrightarrow> \<bar>fst (snd ((kepler_step M ecc ^^ Suc n) (E, delta, iter)))\<bar> \<le> tol"
        using n(4) pow i' by simp
    qed
  qed
qed


text \<open>
  C4: \<open>solveKepler\<close> terminates for every mean anomaly, eccentricity and tolerance (the
  loop is a total function, by the measure \<open>maxIter - iter\<close>). It runs the body \<open>n\<close> times
  with \<open>n \<le> 30\<close>, the correction exceeded the tolerance before each of these runs, and when
  it stops before the cap the last correction is within the tolerance.
\<close>

theorem solveKepler_iterations:
  "\<exists>n. n \<le> maxIter
      \<and> solveKepler M ecc tol = fst ((kepler_step M ecc ^^ n) (M, 1, 0))
      \<and> kepler_loop M ecc tol (M, 1, 0) = (kepler_step M ecc ^^ n) (M, 1, 0)
      \<and> snd (snd (kepler_loop M ecc tol (M, 1, 0))) = n
      \<and> (\<forall>j<n. tol < \<bar>fst (snd ((kepler_step M ecc ^^ j) (M, 1, 0)))\<bar>)
      \<and> (n < maxIter \<longrightarrow> \<bar>fst (snd (kepler_loop M ecc tol (M, 1, 0)))\<bar> \<le> tol)"
proof -
  have it: "snd (snd ((kepler_step M ecc ^^ n) s)) = snd (snd s) + n" for n s
    by (induction n) (simp_all add: kepler_step_iter)
  from kepler_loop_char[of 0 M ecc tol M 1] obtain n where n:
    "n \<le> maxIter"
    "kepler_loop M ecc tol (M, 1, 0) = (kepler_step M ecc ^^ n) (M, 1, 0)"
    "\<forall>j<n. tol < \<bar>fst (snd ((kepler_step M ecc ^^ j) (M, 1, 0)))\<bar>"
    "n < maxIter \<longrightarrow> \<bar>fst (snd ((kepler_step M ecc ^^ n) (M, 1, 0)))\<bar> \<le> tol"
    by auto
  show ?thesis
    using n it [of n "(M, 1, 0)"] by (intro exI [of _ n]) (simp add: solveKepler_def)
qed

lemma kepler_loop_rest: "kepler_loop 0 (1 / 2) tolerance_default (0, 1, 0) = (0, 0, 1)"
proof -
  have "kepler_loop 0 (1 / 2) tolerance_default (0, 1, 0)
      = kepler_loop 0 (1 / 2) tolerance_default (0, 0, 1)"
    by (subst kepler_loop.simps) (simp add: kepler_step_def maxIter_def tolerance_default_def)
  also have "\<dots> = (0, 0, 1)"
    by (subst kepler_loop.simps) (simp add: tolerance_default_def)
  finally show ?thesis .
qed

theorem solveKepler_iterations_witness:
  "\<exists>n. n \<le> maxIter \<and> 0 < n \<and> n < maxIter
      \<and> snd (snd (kepler_loop 0 (1 / 2) tolerance_default (0, 1, 0))) = n
      \<and> tolerance_default < \<bar>fst (snd ((kepler_step 0 (1 / 2) ^^ 0) (0, 1, 0)))\<bar>
      \<and> \<bar>fst (snd (kepler_loop 0 (1 / 2) tolerance_default (0, 1, 0)))\<bar> \<le> tolerance_default"
proof -
  from solveKepler_iterations [of 0 "1 / 2" tolerance_default] obtain n where n:
    "n \<le> maxIter"
    "snd (snd (kepler_loop 0 (1 / 2) tolerance_default (0, 1, 0))) = n"
    "\<forall>j<n. tolerance_default < \<bar>fst (snd ((kepler_step 0 (1 / 2) ^^ j) (0, 1, 0)))\<bar>"
    "n < maxIter \<longrightarrow> \<bar>fst (snd (kepler_loop 0 (1 / 2) tolerance_default (0, 1, 0)))\<bar> \<le> tolerance_default"
    by blast
  have n1: "n = 1"
    using n(2) by (simp add: kepler_loop_rest)
  have "n < maxIter"
    by (simp add: n1 maxIter_def)
  with n n1 show ?thesis
    by (intro exI [of _ n]) simp
qed

subsection \<open>Random draws, planets and belts\<close>

lemma Math_random_eq: "Math_random rnd c = (Rep_random_value (rnd c), Suc c)"
  by (simp add: Math_random_def)

lemma random_value_range: "0 \<le> Rep_random_value v \<and> Rep_random_value v < 1"
  using Rep_random_value [of v] by simp

lemma randomRange_eq:
  "randomRange rnd lo hi c = (Rep_random_value (rnd c) * (hi - lo) + lo, Suc c)"
  by (simp add: randomRange_def Math_random_def)

lemma randomInt_eq:
  "randomInt rnd lo hi c = (\<lfloor>Rep_random_value (rnd c) * of_int (hi - lo + 1)\<rfloor> + lo, Suc c)"
  by (simp add: randomInt_def Math_random_def)

lemma randomRange_bounds:
  assumes "lo < hi"
  shows "lo \<le> fst (randomRange rnd lo hi c) \<and> fst (randomRange rnd lo hi c) < hi"
proof -
  have r: "0 \<le> Rep_random_value (rnd c)" "Rep_random_value (rnd c) < 1"
    using random_value_range by auto
  have "Rep_random_value (rnd c) * (hi - lo) < 1 * (hi - lo)"
    using r(2) assms by (intro mult_strict_right_mono) auto
  moreover have "0 \<le> Rep_random_value (rnd c) * (hi - lo)"
    using r(1) assms by simp
  ultimately show ?thesis
    by (simp add: randomRange_eq)
qed

lemma randomInt_bounds:
  assumes "lo \<le> hi"
  shows "lo \<le> fst (randomInt rnd lo hi c) \<and> fst (randomInt rnd lo hi c) \<le> hi"
proof -
  have r: "0 \<le> Rep_random_value (rnd c)" "Rep_random_value (rnd c) < 1"
    using random_value_range by auto
  have pos: "(0::real) < of_int (hi - lo + 1)" using assms by simp
  have "Rep_random_value (rnd c) * of_int (hi - lo + 1) < 1 * of_int (hi - lo + 1)"
    using r(2) pos by (intro mult_strict_right_mono) auto
  then have "Rep_random_value (rnd c) * of_int (hi - lo + 1) < of_int (hi - lo + 1)"
    by simp
  then have "\<lfloor>Rep_random_value (rnd c) * of_int (hi - lo + 1)\<rfloor> < hi - lo + 1"
    by (rule iffD2 [OF floor_less_iff])
  moreover have "0 \<le> \<lfloor>Rep_random_value (rnd c) * of_int (hi - lo + 1)\<rfloor>"
    using r(1) pos by simp
  ultimately show ?thesis
    by (simp add: randomInt_eq)
qed

lemma generatePlanet_fields:
  "id_str (fst (generatePlanet rnd i pa c)) = ''planet-'' @ string_of_nat i"
  "e (orbit (fst (generatePlanet rnd i pa c))) = fst (randomRange rnd 0.01 0.2 (Suc c))"
  "a (orbit (fst (generatePlanet rnd i pa c))) =
     (pa + fst (randomRange rnd (if i < 4 then 20 else 80) (if i < 4 then 60 else 200) c))
       / (1 - fst (randomRange rnd 0.01 0.2 (Suc c)))"
  "fst (snd (generatePlanet rnd i pa c)) =
     a (orbit (fst (generatePlanet rnd i pa c))) * (1 + e (orbit (fst (generatePlanet rnd i pa c))))"
  by (simp_all add: generatePlanet_def Let_def split_def randomRange_eq)

lemma generatePlanet_e_bounds:
  "0.01 \<le> e (orbit (fst (generatePlanet rnd i pa c)))"
  "e (orbit (fst (generatePlanet rnd i pa c))) < 0.2"
  using randomRange_bounds [of "0.01" "0.2" rnd "Suc c"]
  by (simp_all add: generatePlanet_fields(2))

lemma generatePlanet_perihelion:
  "a (orbit (fst (generatePlanet rnd i pa c))) * (1 - e (orbit (fst (generatePlanet rnd i pa c))))
     = pa + fst (randomRange rnd (if i < 4 then 20 else 80) (if i < 4 then 60 else 200) c)"
proof -
  have "1 - fst (randomRange rnd 0.01 0.2 (Suc c)) \<noteq> 0"
    using randomRange_bounds [of "0.01" "0.2" rnd "Suc c"] by simp
  then show ?thesis
    by (simp add: generatePlanet_fields(2,3))
qed

lemma generatePlanet_gap:
  "a (orbit (fst (generatePlanet rnd i pa c))) * (1 - e (orbit (fst (generatePlanet rnd i pa c))))
     \<ge> pa + 20"
proof (cases "i < 4")
  case True
  then show ?thesis
    using randomRange_bounds [of 20 60 rnd c] by (simp add: generatePlanet_perihelion)
next
  case False
  then show ?thesis
    using randomRange_bounds [of 80 200 rnd c] by (simp add: generatePlanet_perihelion)
qed


lemma planetLoop_unchanged:
  "star (fst (planetLoop rnd n i pa system c)) = star system
   \<and> asteroidBelts (fst (planetLoop rnd n i pa system c)) = asteroidBelts system"
proof (induction rnd n i pa system c rule: planetLoop.induct)
  case (1 rnd n i pa system c)
  show ?case
  proof (cases "int i < n")
    case True
    obtain p pa' c' where g: "generatePlanet rnd i pa c = (p, pa', c')"
      by (cases "generatePlanet rnd i pa c") auto
    show ?thesis
      using True g "1" [OF True refl g [symmetric] refl]
      by (subst (1 2) planetLoop.simps) simp
  next
    case False
    then show ?thesis by (subst (1 2) planetLoop.simps) simp
  qed
qed

lemma planetLoop_length:
  "length (planets (fst (planetLoop rnd n i pa system c)))
     = length (planets system) + nat (n - int i)"
proof (induction rnd n i pa system c rule: planetLoop.induct)
  case (1 rnd n i pa system c)
  show ?case
  proof (cases "int i < n")
    case True
    obtain p pa' c' where g: "generatePlanet rnd i pa c = (p, pa', c')"
      by (cases "generatePlanet rnd i pa c") auto
    let ?system = "system\<lparr>planets := planets system @ [p]\<rparr>"
    have step: "planetLoop rnd n i pa system c = planetLoop rnd n (Suc i) pa' ?system c'"
      using True g by (subst planetLoop.simps) simp
    have "length (planets (fst (planetLoop rnd n (Suc i) pa' ?system c')))
        = length (planets ?system) + nat (n - int (Suc i))"
      using "1" [OF True refl g [symmetric] refl] .
    also have "\<dots> = length (planets system) + nat (n - int i)"
      using True by simp
    finally show ?thesis
      unfolding step .
  next
    case False
    then show ?thesis by (subst planetLoop.simps) simp
  qed
qed

lemma planetLoop_all:
  assumes "\<And>i pa c. Q i (fst (generatePlanet rnd i pa c))"
      and "length (planets system) = i"
      and "\<forall>j<length (planets system). Q j (planets system ! j)"
  shows "\<forall>j<length (planets (fst (planetLoop rnd n i pa system c))).
           Q j (planets (fst (planetLoop rnd n i pa system c)) ! j)"
  using assms
proof (induction rnd n i pa system c rule: planetLoop.induct)
  case (1 rnd n i pa system c)
  show ?case
  proof (cases "int i < n")
    case True
    obtain p pa' c' where g: "generatePlanet rnd i pa c = (p, pa', c')"
      by (cases "generatePlanet rnd i pa c") auto
    have "p = fst (generatePlanet rnd i pa c)" by (simp add: g)
    then have Qp: "Q i p" using "1.prems"(1) [of i pa c] by blast
    let ?system = "system\<lparr>planets := planets system @ [p]\<rparr>"
    have len: "length (planets ?system) = Suc i" using "1.prems"(2) by simp
    have all: "\<forall>j<length (planets ?system). Q j (planets ?system ! j)"
      using "1.prems"(2,3) Qp by (auto simp: nth_append less_Suc_eq)
    have step: "planetLoop rnd n i pa system c = planetLoop rnd n (Suc i) pa' ?system c'"
      using True g by (subst planetLoop.simps) simp
    show ?thesis
      unfolding step using "1.IH" [OF True refl g [symmetric] refl "1.prems"(1) len all] .
  next
    case False
    then show ?thesis using "1.prems"(3) by (subst (1 2) planetLoop.simps) simp
  qed
qed

lemma planetLoop_separated:
  assumes "successively separated (planets system)"
      and "planets system \<noteq> [] \<Longrightarrow>
             pa = a (orbit (last (planets system))) * (1 + e (orbit (last (planets system))))"
  shows "successively separated (planets (fst (planetLoop rnd n i pa system c)))"
  using assms
proof (induction rnd n i pa system c rule: planetLoop.induct)
  case (1 rnd n i pa system c)
  show ?case
  proof (cases "int i < n")
    case True
    obtain p pa' c' where g: "generatePlanet rnd i pa c = (p, pa', c')"
      by (cases "generatePlanet rnd i pa c") auto
    have p: "p = fst (generatePlanet rnd i pa c)" and pa': "pa' = fst (snd (generatePlanet rnd i pa c))"
      using g by simp_all
    let ?system = "system\<lparr>planets := planets system @ [p]\<rparr>"
    have gap: "pa + 20 \<le> a (orbit p) * (1 - e (orbit p))"
      unfolding p by (rule generatePlanet_gap)
    have s: "successively separated (planets ?system)"
      using "1.prems" gap by (cases "planets system = []") (auto simp: successively_append_iff)
    have l: "pa' = a (orbit (last (planets ?system))) * (1 + e (orbit (last (planets ?system))))"
      unfolding pa' p by (simp add: generatePlanet_fields(4))
    have step: "planetLoop rnd n i pa system c = planetLoop rnd n (Suc i) pa' ?system c'"
      using True g by (subst planetLoop.simps) simp
    show ?thesis
      unfolding step using "1.IH" [OF True refl g [symmetric] refl s l] .
  next
    case False
    then show ?thesis using "1.prems" by (subst planetLoop.simps) simp
  qed
qed


lemma gapLoop_eq:
  "gapLoop system i validGaps
     = validGaps @ filter (wide_gap (planets system)) [i..<length (planets system) - 1]"
proof (induction system i validGaps rule: gapLoop.induct)
  case (1 system i validGaps)
  define L where "L = length (planets system) - 1"
  show ?case
  proof (cases "int i < int (length (planets system)) - 1")
    case True
    then have lt: "i < L" unfolding L_def by linarith
    have upt: "[i..<L] = i # [Suc i..<L]"
      using lt by (simp add: upt_conv_Cons)
    let ?vg = "if wide_gap (planets system) i then validGaps @ [i] else validGaps"
    have step: "gapLoop system i validGaps = gapLoop system (Suc i) ?vg"
      using True by (subst gapLoop.simps) (simp add: Let_def)
    have "gapLoop system (Suc i) ?vg = ?vg @ filter (wide_gap (planets system)) [Suc i..<L]"
      unfolding L_def using "1" [OF True refl refl refl refl refl refl] by simp
    then show ?thesis
      unfolding step L_def [symmetric] upt by simp
  next
    case False
    then have "[i..<length (planets system) - 1] = []" by simp
    with False show ?thesis by (subst gapLoop.simps) simp
  qed
qed

lemma shuffleLoop_set:
  assumes "i < int (length validGaps)"
  shows "set (fst (shuffleLoop rnd validGaps i c)) = set validGaps
         \<and> length (fst (shuffleLoop rnd validGaps i c)) = length validGaps"
  using assms
proof (induction rnd validGaps i c rule: shuffleLoop.induct)
  case (1 rnd validGaps i c)
  show ?case
  proof (cases "i > 0")
    case True
    define r where "r = Rep_random_value (rnd c)"
    define j where "j = \<lfloor>r * (of_int i + 1)\<rfloor>"
    have r: "0 \<le> r" "r < 1" unfolding r_def using random_value_range by auto
    have "r * (of_int i + 1) < 1 * (of_int i + 1)"
      using r(2) True by (intro mult_strict_right_mono) auto
    then have "r * (of_int i + 1) < of_int (i + 1)" by simp
    then have "j < i + 1" unfolding j_def by (rule iffD2 [OF floor_less_iff])
    moreover have "0 \<le> j" unfolding j_def using r(1) True by simp
    ultimately have jn: "nat j < length validGaps" and "nat i < length validGaps"
      using "1.prems" True by auto
    let ?vg = "validGaps[nat i := validGaps ! nat j, nat j := validGaps ! nat i]"
    have sw: "set ?vg = set validGaps" "length ?vg = length validGaps"
      using jn \<open>nat i < length validGaps\<close> by (simp_all add: set_swap)
    have step: "shuffleLoop rnd validGaps i c = shuffleLoop rnd ?vg (i - 1) (Suc c)"
      using True by (subst shuffleLoop.simps) (simp add: Math_random_eq j_def r_def Let_def)
    have "i - 1 < int (length ?vg)" using "1.prems" by simp
    then have "set (fst (shuffleLoop rnd ?vg (i - 1) (Suc c))) = set ?vg
        \<and> length (fst (shuffleLoop rnd ?vg (i - 1) (Suc c))) = length ?vg"
      unfolding j_def r_def
      by (rule "1.IH" [OF True refl Math_random_eq [symmetric] refl])
    then show ?thesis unfolding step using sw by simp
  next
    case False
    then show ?thesis by (subst (1 2) shuffleLoop.simps) simp
  qed
qed

lemma particleLoop_length:
  "length (fst (particleLoop rnd minR maxR cnt k ps c)) = length ps + nat (cnt - int k)"
proof (induction rnd minR maxR cnt k ps c rule: particleLoop.induct)
  case (1 rnd minR maxR cnt k ps c)
  show ?case
  proof (cases "int k < cnt")
    case True
    show ?thesis
      using True "1" [OF True randomRange_eq [symmetric] refl randomRange_eq [symmetric] refl
          randomRange_eq [symmetric] refl]
      by (subst particleLoop.simps) (simp add: randomRange_eq Let_def)
  next
    case False
    then show ?thesis by (subst particleLoop.simps) simp
  qed
qed


lemma js_index_nth: "i < length arr \<Longrightarrow> js_index arr (int i) = Some (arr ! i)"
  by (simp add: js_index_def)

lemma innerBelts_ok:
  assumes "\<forall>idx\<in>set sel. Suc idx < length (planets system)"
  shows "\<exists>system' c' bs. innerBelts rnd sel system c = Inr (system', c')
      \<and> planets system' = planets system \<and> star system' = star system
      \<and> asteroidBelts system' = asteroidBelts system @ bs \<and> length bs = length sel
      \<and> (\<forall>j<length sel.
            minRadius (bs ! j) = a (orbit (planets system ! (sel ! j)))
                                   * (1 + e (orbit (planets system ! (sel ! j)))) + 15
          \<and> maxRadius (bs ! j) = a (orbit (planets system ! Suc (sel ! j)))
                                   * (1 - e (orbit (planets system ! Suc (sel ! j)))) - 15)"
  using assms
proof (induction sel arbitrary: system c)
  case Nil
  then show ?case by simp
next
  case (Cons idx sel)
  have idx: "idx < length (planets system)" "Suc idx < length (planets system)"
    using Cons.prems by auto
  define minR where
    "minR = a (orbit (planets system ! idx)) * (1 + e (orbit (planets system ! idx))) + 15"
  define maxR where
    "maxR = a (orbit (planets system ! Suc idx)) * (1 - e (orbit (planets system ! Suc idx))) - 15"
  define cnt where "cnt = \<lfloor>(maxR - minR) * 20\<rfloor>"
  obtain ps c1 where pl: "particleLoop rnd minR maxR cnt 0 [] c = (ps, c1)"
    by (cases "particleLoop rnd minR maxR cnt 0 [] c") auto
  define b where "b = \<lparr>minRadius = minR, maxRadius = maxR, count = cnt, particles = ps\<rparr>"
  define system1 where "system1 = system\<lparr>asteroidBelts := asteroidBelts system @ [b]\<rparr>"
  have i1: "js_index (planets system) (int idx) = Some (planets system ! idx)"
    using idx(1) by (rule js_index_nth)
  have i2: "js_index (planets system) (int idx + 1) = Some (planets system ! Suc idx)"
    using js_index_nth [OF idx(2)] by (simp add: add.commute)
  have step: "innerBelts rnd (idx # sel) system c = innerBelts rnd sel system1 c1"
    using pl by (simp add: i1 i2 Let_def minR_def maxR_def cnt_def b_def system1_def)
  have "\<forall>idx\<in>set sel. Suc idx < length (planets system1)"
    using Cons.prems by (simp add: system1_def)
  from Cons.IH [OF this, of c1] obtain system' c' bs where r:
    "innerBelts rnd sel system1 c1 = Inr (system', c')"
    "planets system' = planets system1" "star system' = star system1"
    "asteroidBelts system' = asteroidBelts system1 @ bs" "length bs = length sel"
    "\<forall>j<length sel.
        minRadius (bs ! j) = a (orbit (planets system1 ! (sel ! j)))
                               * (1 + e (orbit (planets system1 ! (sel ! j)))) + 15
      \<and> maxRadius (bs ! j) = a (orbit (planets system1 ! Suc (sel ! j)))
                               * (1 - e (orbit (planets system1 ! Suc (sel ! j)))) - 15"
    by blast
  have ps1: "planets system1 = planets system" "star system1 = star system"
    "asteroidBelts system1 = asteroidBelts system @ [b]"
    by (simp_all add: system1_def)
  have all: "\<forall>j<length (idx # sel).
        minRadius ((b # bs) ! j) = a (orbit (planets system ! ((idx # sel) ! j)))
                               * (1 + e (orbit (planets system ! ((idx # sel) ! j)))) + 15
      \<and> maxRadius ((b # bs) ! j) = a (orbit (planets system ! Suc ((idx # sel) ! j)))
                               * (1 - e (orbit (planets system ! Suc ((idx # sel) ! j)))) - 15"
  proof (intro allI impI)
    fix j assume "j < length (idx # sel)"
    then show "minRadius ((b # bs) ! j) = a (orbit (planets system ! ((idx # sel) ! j)))
                               * (1 + e (orbit (planets system ! ((idx # sel) ! j)))) + 15
      \<and> maxRadius ((b # bs) ! j) = a (orbit (planets system ! Suc ((idx # sel) ! j)))
                               * (1 - e (orbit (planets system ! Suc ((idx # sel) ! j)))) - 15"
      using r(6) ps1(1) by (cases j) (simp_all add: b_def minR_def maxR_def)
  qed
  show ?case
    unfolding step
    by (intro exI [of _ system'] exI [of _ c'] exI [of _ "b # bs"])
       (use r ps1 all in simp)
qed

lemma generatePlanets_props:
  assumes "\<And>i pa c. Q i (fst (generatePlanet rnd i pa c))"
  shows "asteroidBelts (fst (generatePlanets rnd c)) = []"
    and "7 \<le> length (planets (fst (generatePlanets rnd c)))"
    and "length (planets (fst (generatePlanets rnd c))) \<le> 12"
    and "successively separated (planets (fst (generatePlanets rnd c)))"
    and "\<forall>j<length (planets (fst (generatePlanets rnd c))).
           Q j (planets (fst (generatePlanets rnd c)) ! j)"
proof -
  define c2 where "c2 = snd (generateColor rnd ''STAR'' (Suc c))"
  define n where "n = fst (randomInt rnd 7 12 c2)"
  define system0 where
    "system0 = \<lparr>star = \<lparr>Star.radius = fst (randomRange rnd 5 8 c),
                  color = fst (generateColor rnd ''STAR'' (Suc c)), mass = 1\<rparr>,
                planets = [], asteroidBelts = []\<rparr>"
  have gp: "generatePlanets rnd c
      = planetLoop rnd n 0 (fst (randomRange rnd 5 8 c) + 5) system0 (Suc c2)"
    by (simp add: generatePlanets_def Let_def split_def randomRange_eq randomInt_eq
        n_def c2_def system0_def)
  have n: "7 \<le> n" "n \<le> 12"
    unfolding n_def using randomInt_bounds [of 7 12 rnd c2] by simp_all
  show "asteroidBelts (fst (generatePlanets rnd c)) = []"
    unfolding gp by (simp add: planetLoop_unchanged system0_def)
  have len: "length (planets (fst (generatePlanets rnd c))) = nat n"
    unfolding gp by (simp add: planetLoop_length system0_def)
  show "7 \<le> length (planets (fst (generatePlanets rnd c)))"
    and "length (planets (fst (generatePlanets rnd c))) \<le> 12"
    using len n by simp_all
  show "successively separated (planets (fst (generatePlanets rnd c)))"
    unfolding gp by (rule planetLoop_separated) (simp_all add: system0_def)
  show "\<forall>j<length (planets (fst (generatePlanets rnd c))).
           Q j (planets (fst (generatePlanets rnd c)) ! j)"
    unfolding gp
    by (rule planetLoop_all [where Q = Q and rnd = rnd]) (simp_all add: assms system0_def)
qed


lemma generateInnerBelts_ok:
  "\<exists>system' c' bs n. generateInnerBelts rnd system c = Inr (system', c')
      \<and> planets system' = planets system \<and> star system' = star system
      \<and> asteroidBelts system' = asteroidBelts system @ bs
      \<and> (n = 1 \<or> n = 2 \<or> n = 3) \<and> length bs = min n (length (gapLoop system 0 []))
      \<and> (\<forall>j<length bs. \<exists>i. Suc i < length (planets system) \<and> wide_gap (planets system) i
            \<and> minRadius (bs ! j) = a (orbit (planets system ! i))
                                     * (1 + e (orbit (planets system ! i))) + 15
            \<and> maxRadius (bs ! j) = a (orbit (planets system ! Suc i))
                                     * (1 - e (orbit (planets system ! Suc i))) - 15)"
proof -
  define vg where "vg = gapLoop system 0 []"
  define roll where "roll = Rep_random_value (rnd c)"
  define nI :: int where "nI = (if roll < 0.05 then 3 else if roll < 0.25 then 2 else 1)"
  define n where "n = nat nI"
  define sh where "sh = fst (shuffleLoop rnd vg (int (length vg) - 1) (Suc c))"
  define c2 where "c2 = snd (shuffleLoop rnd vg (int (length vg) - 1) (Suc c))"
  define sel where "sel = take (nat (min nI (int (length vg)))) sh"
  have vg: "vg = filter (wide_gap (planets system)) [0..<length (planets system) - 1]"
    unfolding vg_def by (simp add: gapLoop_eq)
  have sh: "set sh = set vg" "length sh = length vg"
    unfolding sh_def using shuffleLoop_set [of "int (length vg) - 1" vg rnd "Suc c"] by simp_all
  have n: "n = 1 \<or> n = 2 \<or> n = 3" unfolding n_def nI_def by simp
  have nat_min: "nat (min nI (int (length vg))) = min n (length vg)"
    unfolding n_def nI_def by auto
  have gen: "generateInnerBelts rnd system c = innerBelts rnd sel system c2"
    by (simp add: generateInnerBelts_def Let_def split_def Math_random_eq
        sel_def sh_def c2_def nI_def roll_def vg_def)
  have sel_set: "set sel \<subseteq> set vg"
    unfolding sel_def using sh(1) set_take_subset [of "nat (min nI (int (length vg)))" sh] by simp
  have sel_len: "length sel = min n (length vg)"
    unfolding sel_def nat_min using sh(2) by simp
  have sel_ok: "Suc idx < length (planets system) \<and> wide_gap (planets system) idx"
    if "idx \<in> set sel" for idx
  proof -
    have "idx \<in> set vg" using that sel_set by blast
    then show ?thesis unfolding vg by auto
  qed
  then have "\<forall>idx\<in>set sel. Suc idx < length (planets system)" by blast
  from innerBelts_ok [OF this, of rnd c2] obtain system' c' bs where r:
    "innerBelts rnd sel system c2 = Inr (system', c')"
    "planets system' = planets system" "star system' = star system"
    "asteroidBelts system' = asteroidBelts system @ bs" "length bs = length sel"
    "\<forall>j<length sel.
        minRadius (bs ! j) = a (orbit (planets system ! (sel ! j)))
                               * (1 + e (orbit (planets system ! (sel ! j)))) + 15
      \<and> maxRadius (bs ! j) = a (orbit (planets system ! Suc (sel ! j)))
                               * (1 - e (orbit (planets system ! Suc (sel ! j)))) - 15"
    by blast
  have fit: "\<forall>j<length bs. \<exists>i. Suc i < length (planets system) \<and> wide_gap (planets system) i
            \<and> minRadius (bs ! j) = a (orbit (planets system ! i))
                                     * (1 + e (orbit (planets system ! i))) + 15
            \<and> maxRadius (bs ! j) = a (orbit (planets system ! Suc i))
                                     * (1 - e (orbit (planets system ! Suc i))) - 15"
  proof (intro allI impI)
    fix j assume "j < length bs"
    then have j: "j < length sel" using r(5) by simp
    then have "sel ! j \<in> set sel" by simp
    from sel_ok [OF this] r(6) j
    show "\<exists>i. Suc i < length (planets system) \<and> wide_gap (planets system) i
            \<and> minRadius (bs ! j) = a (orbit (planets system ! i))
                                     * (1 + e (orbit (planets system ! i))) + 15
            \<and> maxRadius (bs ! j) = a (orbit (planets system ! Suc i))
                                     * (1 - e (orbit (planets system ! Suc i))) - 15"
      by (intro exI [of _ "sel ! j"]) simp
  qed
  have len: "length bs = min n (length (gapLoop system 0 []))"
    using r(5) sel_len by (simp add: vg_def)
  show ?thesis
    unfolding gen
    using r(1,2,3,4) n len fit
    by (intro exI [of _ system'] exI [of _ c'] exI [of _ bs] exI [of _ n] conjI)
qed

lemma generateOuterBelt_ok:
  assumes "planets system \<noteq> []"
  shows "\<exists>b. generateOuterBelt rnd system c
        = Inr (system\<lparr>asteroidBelts := asteroidBelts system @ [b]\<rparr>)
      \<and> count b = 2500 \<and> length (particles b) = 2500
      \<and> minRadius b = a (orbit (last (planets system)))
                         * (1 + e (orbit (last (planets system)))) + 40
      \<and> minRadius b + 80 \<le> maxRadius b"
proof -
  define lastPlanet where "lastPlanet = last (planets system)"
  define minR where "minR = a (orbit lastPlanet) * (1 + e (orbit lastPlanet)) + 40"
  define maxR where "maxR = minR + fst (randomRange rnd 80 150 c)"
  define ps where "ps = fst (particleLoop rnd minR maxR 2500 0 [] (Suc c))"
  define b where "b = \<lparr>minRadius = minR, maxRadius = maxR, count = 2500, particles = ps\<rparr>"
  have idx: "int (length (planets system)) - 1 = int (length (planets system) - 1)"
    using assms by (cases "planets system") simp_all
  have "js_index (planets system) (int (length (planets system) - 1)) = Some lastPlanet"
    using assms by (subst js_index_nth) (simp_all add: lastPlanet_def last_conv_nth)
  then have "js_index (planets system) (int (length (planets system)) - 1) = Some lastPlanet"
    by (simp only: idx)
  then have "generateOuterBelt rnd system c
      = Inr (system\<lparr>asteroidBelts := asteroidBelts system @ [b]\<rparr>)"
    by (simp add: generateOuterBelt_def Let_def split_def randomRange_eq
        b_def ps_def maxR_def minR_def)
  moreover have "length (particles b) = 2500"
    by (simp add: b_def ps_def particleLoop_length)
  moreover have "minRadius b + 80 \<le> maxRadius b"
    using randomRange_bounds [of 80 150 rnd c] by (simp add: b_def maxR_def)
  ultimately show ?thesis
    by (intro exI [of _ b]) (simp add: b_def minR_def lastPlanet_def)
qed

lemma gapLoop_planets:
  "planets system' = planets system \<Longrightarrow> gapLoop system' i vg = gapLoop system i vg"
  by (simp add: gapLoop_eq)

lemma generateSolarSystem_struct:
  "\<exists>sys bs b n. generateSolarSystem rnd width height = Inr sys
      \<and> planets sys = planets (fst (generatePlanets rnd 0))
      \<and> star sys = star (fst (generatePlanets rnd 0))
      \<and> asteroidBelts sys = bs @ [b]
      \<and> (n = 1 \<or> n = 2 \<or> n = 3) \<and> length bs = min n (length (gapLoop sys 0 []))
      \<and> (\<forall>j<length bs. \<exists>i. Suc i < length (planets sys) \<and> wide_gap (planets sys) i
            \<and> minRadius (bs ! j) = a (orbit (planets sys ! i))
                                     * (1 + e (orbit (planets sys ! i))) + 15
            \<and> maxRadius (bs ! j) = a (orbit (planets sys ! Suc i))
                                     * (1 - e (orbit (planets sys ! Suc i))) - 15)
      \<and> count b = 2500 \<and> length (particles b) = 2500
      \<and> minRadius b = a (orbit (last (planets sys))) * (1 + e (orbit (last (planets sys)))) + 40
      \<and> minRadius b + 80 \<le> maxRadius b"
proof -
  obtain system c where gp: "generatePlanets rnd 0 = (system, c)"
    by (cases "generatePlanets rnd 0") auto
  have sys0: "system = fst (generatePlanets rnd 0)" by (simp add: gp)
  have nb: "asteroidBelts system = []"
    unfolding sys0 by (rule generatePlanets_props(1) [where Q = "\<lambda>i p. True"]) simp
  have "7 \<le> length (planets system)"
    unfolding sys0 by (rule generatePlanets_props(2) [where Q = "\<lambda>i p. True"]) simp
  then have ne: "planets system \<noteq> []" by auto
  from generateInnerBelts_ok [of rnd system c] obtain system' c' bs n where ib:
    "generateInnerBelts rnd system c = Inr (system', c')"
    "planets system' = planets system" "star system' = star system"
    "asteroidBelts system' = asteroidBelts system @ bs"
    "n = 1 \<or> n = 2 \<or> n = 3" "length bs = min n (length (gapLoop system 0 []))"
    "\<forall>j<length bs. \<exists>i. Suc i < length (planets system) \<and> wide_gap (planets system) i
            \<and> minRadius (bs ! j) = a (orbit (planets system ! i))
                                     * (1 + e (orbit (planets system ! i))) + 15
            \<and> maxRadius (bs ! j) = a (orbit (planets system ! Suc i))
                                     * (1 - e (orbit (planets system ! Suc i))) - 15"
    by blast
  have "planets system' \<noteq> []" using ne ib(2) by simp
  from generateOuterBelt_ok [OF this, of rnd c'] obtain b where ob:
    "generateOuterBelt rnd system' c'
        = Inr (system'\<lparr>asteroidBelts := asteroidBelts system' @ [b]\<rparr>)"
    "count b = 2500" "length (particles b) = 2500"
    "minRadius b = a (orbit (last (planets system')))
                         * (1 + e (orbit (last (planets system')))) + 40"
    "minRadius b + 80 \<le> maxRadius b"
    by blast
  define sys where "sys = system'\<lparr>asteroidBelts := asteroidBelts system' @ [b]\<rparr>"
  have res: "generateSolarSystem rnd width height = Inr sys"
    by (simp add: generateSolarSystem_def gp ib(1) ob(1) sys_def)
  have ps: "planets sys = planets system" "star sys = star system" "asteroidBelts sys = bs @ [b]"
    by (simp_all add: sys_def ib(2,3,4) nb)
  have gl: "gapLoop sys 0 [] = gapLoop system 0 []"
    by (rule gapLoop_planets) (rule ps(1))
  have f1: "planets sys = planets (fst (generatePlanets rnd 0))"
    and f2: "star sys = star (fst (generatePlanets rnd 0))"
    using ps(1,2) by (simp_all add: sys0)
  have f3: "length bs = min n (length (gapLoop sys 0 []))"
    using ib(6) gl by simp
  have f4: "\<forall>j<length bs. \<exists>i. Suc i < length (planets sys) \<and> wide_gap (planets sys) i
            \<and> minRadius (bs ! j) = a (orbit (planets sys ! i))
                                     * (1 + e (orbit (planets sys ! i))) + 15
            \<and> maxRadius (bs ! j) = a (orbit (planets sys ! Suc i))
                                     * (1 - e (orbit (planets sys ! Suc i))) - 15"
    unfolding ps(1) by (rule ib(7))
  have f5: "minRadius b = a (orbit (last (planets sys))) * (1 + e (orbit (last (planets sys)))) + 40"
    unfolding ps(1) using ob(4) by (simp add: ib(2))
  show ?thesis
    using res f1 f2 ps(3) ib(5) f3 f4 ob(2,3) f5 ob(5)
    by (intro exI [of _ sys] exI [of _ bs] exI [of _ b] exI [of _ n] conjI)
qed

subsection \<open>Orbits and belts of a generated system\<close>

lemma generatePlanet_gap_index:
  "a (orbit (fst (generatePlanet rnd i pa c))) * (1 - e (orbit (fst (generatePlanet rnd i pa c))))
     \<ge> pa + (if i < 4 then 20 else 80)"
proof (cases "i < 4")
  case True
  then show ?thesis
    using randomRange_bounds [of 20 60 rnd c] by (simp add: generatePlanet_perihelion)
next
  case False
  then show ?thesis
    using randomRange_bounds [of 80 200 rnd c] by (simp add: generatePlanet_perihelion)
qed

lemma planetLoop_gaps:
  assumes "length (planets system) = i"
      and "\<forall>j. Suc j < length (planets system) \<longrightarrow>
             a (orbit (planets system ! j)) * (1 + e (orbit (planets system ! j)))
               + (if Suc j < 4 then 20 else 80)
             \<le> a (orbit (planets system ! Suc j)) * (1 - e (orbit (planets system ! Suc j)))"
      and "planets system \<noteq> [] \<Longrightarrow>
             pa = a (orbit (last (planets system))) * (1 + e (orbit (last (planets system))))"
  shows "\<forall>j. Suc j < length (planets (fst (planetLoop rnd n i pa system c))) \<longrightarrow>
           a (orbit (planets (fst (planetLoop rnd n i pa system c)) ! j))
             * (1 + e (orbit (planets (fst (planetLoop rnd n i pa system c)) ! j)))
             + (if Suc j < 4 then 20 else 80)
           \<le> a (orbit (planets (fst (planetLoop rnd n i pa system c)) ! Suc j))
             * (1 - e (orbit (planets (fst (planetLoop rnd n i pa system c)) ! Suc j)))"
  using assms
proof (induction rnd n i pa system c rule: planetLoop.induct)
  case (1 rnd n i pa system c)
  show ?case
  proof (cases "int i < n")
    case True
    obtain p pa' c' where g: "generatePlanet rnd i pa c = (p, pa', c')"
      by (cases "generatePlanet rnd i pa c") auto
    have p: "p = fst (generatePlanet rnd i pa c)" and pa': "pa' = fst (snd (generatePlanet rnd i pa c))"
      using g by simp_all
    let ?system = "system\<lparr>planets := planets system @ [p]\<rparr>"
    have gap: "pa + (if i < 4 then 20 else 80) \<le> a (orbit p) * (1 - e (orbit p))"
      unfolding p by (rule generatePlanet_gap_index)
    have len: "length (planets ?system) = Suc i" using "1.prems"(1) by simp
    have s: "\<forall>j. Suc j < length (planets ?system) \<longrightarrow>
             a (orbit (planets ?system ! j)) * (1 + e (orbit (planets ?system ! j)))
               + (if Suc j < 4 then 20 else 80)
             \<le> a (orbit (planets ?system ! Suc j)) * (1 - e (orbit (planets ?system ! Suc j)))"
    proof (intro allI impI)
      fix j assume j: "Suc j < length (planets ?system)"
      show "a (orbit (planets ?system ! j)) * (1 + e (orbit (planets ?system ! j)))
               + (if Suc j < 4 then 20 else 80)
             \<le> a (orbit (planets ?system ! Suc j)) * (1 - e (orbit (planets ?system ! Suc j)))"
      proof (cases "Suc j < length (planets system)")
        case True
        then show ?thesis using "1.prems"(2) by (simp add: nth_append)
      next
        case False
        then have eq: "Suc j = length (planets system)" using j by simp
        then have ne: "planets system \<noteq> []" by auto
        have "j = length (planets system) - 1" using eq by simp
        then have "planets system ! j = last (planets system)"
          using ne by (simp add: last_conv_nth)
        then show ?thesis
          using eq "1.prems"(1) "1.prems"(3) [OF ne] gap by (simp add: nth_append)
      qed
    qed
    have l: "pa' = a (orbit (last (planets ?system))) * (1 + e (orbit (last (planets ?system))))"
      unfolding pa' p by (simp add: generatePlanet_fields(4))
    have step: "planetLoop rnd n i pa system c = planetLoop rnd n (Suc i) pa' ?system c'"
      using True g by (subst planetLoop.simps) simp
    show ?thesis
      unfolding step using "1.IH" [OF True refl g [symmetric] refl len s l] .
  next
    case False
    then show ?thesis using "1.prems"(2) by (subst (1 2 3 4 5) planetLoop.simps) simp
  qed
qed


lemma generatePlanets_gaps:
  assumes "Suc j < length (planets (fst (generatePlanets rnd c)))"
  shows "a (orbit (planets (fst (generatePlanets rnd c)) ! j))
             * (1 + e (orbit (planets (fst (generatePlanets rnd c)) ! j)))
             + (if Suc j < 4 then 20 else 80)
           \<le> a (orbit (planets (fst (generatePlanets rnd c)) ! Suc j))
             * (1 - e (orbit (planets (fst (generatePlanets rnd c)) ! Suc j)))"
proof -
  define c2 where "c2 = snd (generateColor rnd ''STAR'' (Suc c))"
  define n where "n = fst (randomInt rnd 7 12 c2)"
  define system0 where
    "system0 = \<lparr>star = \<lparr>Star.radius = fst (randomRange rnd 5 8 c),
                  color = fst (generateColor rnd ''STAR'' (Suc c)), mass = 1\<rparr>,
                planets = [], asteroidBelts = []\<rparr>"
  have gp: "generatePlanets rnd c
      = planetLoop rnd n 0 (fst (randomRange rnd 5 8 c) + 5) system0 (Suc c2)"
    by (simp add: generatePlanets_def Let_def split_def randomRange_eq randomInt_eq
        n_def c2_def system0_def)
  have "\<forall>j. Suc j < length (planets (fst (generatePlanets rnd c))) \<longrightarrow>
           a (orbit (planets (fst (generatePlanets rnd c)) ! j))
             * (1 + e (orbit (planets (fst (generatePlanets rnd c)) ! j)))
             + (if Suc j < 4 then 20 else 80)
           \<le> a (orbit (planets (fst (generatePlanets rnd c)) ! Suc j))
             * (1 - e (orbit (planets (fst (generatePlanets rnd c)) ! Suc j)))"
    unfolding gp by (rule planetLoop_gaps) (simp_all add: system0_def)
  then show ?thesis using assms by blast
qed

lemma generatePlanets_wide:
  assumes "3 \<le> j" and "Suc j < length (planets (fst (generatePlanets rnd c)))"
  shows "wide_gap (planets (fst (generatePlanets rnd c))) j"
  using generatePlanets_gaps [OF assms(2)] assms(1) by simp

lemma generatePlanets_validGaps:
  "3 \<le> length (gapLoop (fst (generatePlanets rnd c)) 0 [])"
proof -
  define ps where "ps = planets (fst (generatePlanets rnd c))"
  have len: "7 \<le> length ps"
    unfolding ps_def by (rule generatePlanets_props(2) [where Q = "\<lambda>i p. True"]) simp
  have w: "wide_gap ps j" if "3 \<le> j" "Suc j < length ps" for j
    using that generatePlanets_wide [of j rnd c] by (simp add: ps_def)
  have "{3, 4, 5} \<subseteq> set (filter (wide_gap ps) [0..<length ps - 1])"
    using len w [of 3] w [of 4] w [of 5] by auto
  then have "card {3, 4, 5 :: nat} \<le> card (set (filter (wide_gap ps) [0..<length ps - 1]))"
    by (intro card_mono) simp_all
  also have "\<dots> \<le> length (filter (wide_gap ps) [0..<length ps - 1])"
    by (rule card_length)
  finally show ?thesis
    by (simp add: gapLoop_eq ps_def)
qed

text \<open>
  C1: in every generated system, the perihelion of each planet lies strictly beyond the
  aphelion of the planet before it in the list, so no two orbits cross or touch.
\<close>

theorem orbits_never_cross:
  assumes "generateSolarSystem rnd width height = Inr sys"
      and "Suc i < length (planets sys)"
  shows "a (orbit (planets sys ! Suc i)) * (1 - e (orbit (planets sys ! Suc i)))
           > a (orbit (planets sys ! i)) * (1 + e (orbit (planets sys ! i)))"
proof -
  from generateSolarSystem_struct [of rnd width height] assms(1)
  have ps: "planets sys = planets (fst (generatePlanets rnd 0))" by auto
  have "successively separated (planets sys)"
    unfolding ps by (rule generatePlanets_props(4) [where Q = "\<lambda>i p. True"]) simp
  then show ?thesis
    using assms(2) by (simp add: successively_conv_nth)
qed

theorem orbits_never_cross_witness:
  "\<exists>sys. generateSolarSystem stream_half 800 600 = Inr sys
      \<and> Suc 0 < length (planets sys)
      \<and> a (orbit (planets sys ! Suc 0)) * (1 - e (orbit (planets sys ! Suc 0)))
           > a (orbit (planets sys ! 0)) * (1 + e (orbit (planets sys ! 0)))"
proof -
  from generateSolarSystem_struct [of stream_half 800 600] obtain sys where
    sys: "generateSolarSystem stream_half 800 600 = Inr sys"
    and ps: "planets sys = planets (fst (generatePlanets stream_half 0))"
    by blast
  have "7 \<le> length (planets sys)"
    unfolding ps by (rule generatePlanets_props(2) [where Q = "\<lambda>i p. True"]) simp
  then have len: "Suc 0 < length (planets sys)" by simp
  from sys len orbits_never_cross [OF sys len] show ?thesis by blast
qed

text \<open>
  C2: the inner belts are all the belts of the list but the last one. Each of them lies in
  the gap after some planet \<open>i\<close>: its inner radius is the aphelion of planet \<open>i\<close> plus the
  margin 15, its outer radius is the perihelion of planet \<open>i + 1\<close> minus the margin, and the
  inner radius is below the outer one, so the belt lies strictly between the two orbits.
\<close>

theorem inner_belts_fit:
  assumes "generateSolarSystem rnd width height = Inr sys"
      and "Suc j < length (asteroidBelts sys)"
  shows "\<exists>i. Suc i < length (planets sys)
      \<and> minRadius (asteroidBelts sys ! j)
          = a (orbit (planets sys ! i)) * (1 + e (orbit (planets sys ! i))) + 15
      \<and> maxRadius (asteroidBelts sys ! j)
          = a (orbit (planets sys ! Suc i)) * (1 - e (orbit (planets sys ! Suc i))) - 15
      \<and> minRadius (asteroidBelts sys ! j) < maxRadius (asteroidBelts sys ! j)
      \<and> a (orbit (planets sys ! i)) * (1 + e (orbit (planets sys ! i)))
          < minRadius (asteroidBelts sys ! j)
      \<and> maxRadius (asteroidBelts sys ! j)
          < a (orbit (planets sys ! Suc i)) * (1 - e (orbit (planets sys ! Suc i)))"
proof -
  from generateSolarSystem_struct [of rnd width height] assms(1) obtain bs b where
    belts: "asteroidBelts sys = bs @ [b]"
    and fit: "\<forall>j<length bs. \<exists>i. Suc i < length (planets sys) \<and> wide_gap (planets sys) i
            \<and> minRadius (bs ! j) = a (orbit (planets sys ! i))
                                     * (1 + e (orbit (planets sys ! i))) + 15
            \<and> maxRadius (bs ! j) = a (orbit (planets sys ! Suc i))
                                     * (1 - e (orbit (planets sys ! Suc i))) - 15"
    by auto
  have j: "j < length bs" using assms(2) belts by simp
  then have nth: "asteroidBelts sys ! j = bs ! j" by (simp add: belts nth_append)
  from fit j obtain i where i:
    "Suc i < length (planets sys)" "wide_gap (planets sys) i"
    "minRadius (bs ! j) = a (orbit (planets sys ! i)) * (1 + e (orbit (planets sys ! i))) + 15"
    "maxRadius (bs ! j) = a (orbit (planets sys ! Suc i))
                             * (1 - e (orbit (planets sys ! Suc i))) - 15"
    by blast
  show ?thesis
    unfolding nth using i by (intro exI [of _ i]) simp
qed

theorem inner_belts_fit_witness:
  "\<exists>sys i. generateSolarSystem stream_half 800 600 = Inr sys
      \<and> Suc 0 < length (asteroidBelts sys)
      \<and> Suc i < length (planets sys)
      \<and> minRadius (asteroidBelts sys ! 0)
          = a (orbit (planets sys ! i)) * (1 + e (orbit (planets sys ! i))) + 15
      \<and> maxRadius (asteroidBelts sys ! 0)
          = a (orbit (planets sys ! Suc i)) * (1 - e (orbit (planets sys ! Suc i))) - 15
      \<and> minRadius (asteroidBelts sys ! 0) < maxRadius (asteroidBelts sys ! 0)"
proof -
  from generateSolarSystem_struct [of stream_half 800 600] obtain sys bs b n where
    sys: "generateSolarSystem stream_half 800 600 = Inr sys"
    and ps: "planets sys = planets (fst (generatePlanets stream_half 0))"
    and belts: "asteroidBelts sys = bs @ [b]"
    and n: "n = 1 \<or> n = 2 \<or> n = 3"
    and len: "length bs = min n (length (gapLoop sys 0 []))"
    by blast
  have "gapLoop sys 0 [] = gapLoop (fst (generatePlanets stream_half 0)) 0 []"
    by (rule gapLoop_planets) (rule ps)
  then have "3 \<le> length (gapLoop sys 0 [])"
    using generatePlanets_validGaps [of stream_half 0] by simp
  then have "0 < length bs" using n len by auto
  then have l: "Suc 0 < length (asteroidBelts sys)" by (simp add: belts)
  from inner_belts_fit [OF sys l] sys l show ?thesis by blast
qed

text \<open>
  C5: the generator returns a system for every stream of random values. The number of inner
  belts is the number \<open>n\<close> drawn (1, 2 or 3) clamped to the number of valid gaps, so no valid
  gap means no inner belt; the outer belt is appended last in every case, with 2500
  particles, so the list of belts is never empty.
\<close>

theorem generateSolarSystem_never_fails:
  "\<exists>sys n. generateSolarSystem rnd width height = Inr sys
      \<and> (n = 1 \<or> n = 2 \<or> n = 3)
      \<and> length (asteroidBelts sys) = min n (length (gapLoop sys 0 [])) + 1
      \<and> asteroidBelts sys \<noteq> []
      \<and> count (last (asteroidBelts sys)) = 2500
      \<and> length (particles (last (asteroidBelts sys))) = 2500
      \<and> minRadius (last (asteroidBelts sys))
          = a (orbit (last (planets sys))) * (1 + e (orbit (last (planets sys)))) + 40"
proof -
  from generateSolarSystem_struct [of rnd width height] obtain sys bs b n where r:
    "generateSolarSystem rnd width height = Inr sys"
    "asteroidBelts sys = bs @ [b]"
    "n = 1 \<or> n = 2 \<or> n = 3" "length bs = min n (length (gapLoop sys 0 []))"
    "count b = 2500" "length (particles b) = 2500"
    "minRadius b = a (orbit (last (planets sys))) * (1 + e (orbit (last (planets sys)))) + 40"
    by blast
  have "length (asteroidBelts sys) = min n (length (gapLoop sys 0 [])) + 1"
    "asteroidBelts sys \<noteq> []" "last (asteroidBelts sys) = b"
    using r(2,4) by simp_all
  with r(1,3,5,6,7) show ?thesis
    by (intro exI [of _ sys] exI [of _ n]) simp
qed

theorem generateSolarSystem_never_fails_witness:
  "\<exists>sys. generateSolarSystem stream_half 800 600 = Inr sys
      \<and> asteroidBelts sys \<noteq> []
      \<and> count (last (asteroidBelts sys)) = 2500"
  using generateSolarSystem_never_fails [of stream_half 800 600] by blast

text \<open>
  The scenario of a system without a valid gap, on the part of the generator that places
  the belts: no inner belt is added.
\<close>

lemma generateInnerBelts_no_gap:
  assumes "gapLoop system 0 [] = []"
  shows "\<exists>system' c'. generateInnerBelts rnd system c = Inr (system', c')
      \<and> planets system' = planets system
      \<and> asteroidBelts system' = asteroidBelts system"
proof -
  from generateInnerBelts_ok [of rnd system c] obtain system' c' bs n where r:
    "generateInnerBelts rnd system c = Inr (system', c')"
    "planets system' = planets system"
    "asteroidBelts system' = asteroidBelts system @ bs"
    "length bs = min n (length (gapLoop system 0 []))"
    by blast
  have "bs = []" using r(4) assms by simp
  with r show ?thesis by simp
qed

text \<open>
  C9: the arguments \<open>width\<close> and \<open>height\<close> are never read: two calls on the same randomness
  return the same result whatever the view dimensions.
\<close>

theorem generateSolarSystem_ignores_view:
  "generateSolarSystem rnd width height = generateSolarSystem rnd width' height'"
  by (simp add: generateSolarSystem_def)

subsection \<open>Moons\<close>

lemma planetLoop_prefix:
  "j < length (planets system) \<Longrightarrow>
     planets (fst (planetLoop rnd n i pa system c)) ! j = planets system ! j"
proof (induction rnd n i pa system c rule: planetLoop.induct)
  case (1 rnd n i pa system c)
  show ?case
  proof (cases "int i < n")
    case True
    obtain p pa' c' where g: "generatePlanet rnd i pa c = (p, pa', c')"
      by (cases "generatePlanet rnd i pa c") auto
    let ?system = "system\<lparr>planets := planets system @ [p]\<rparr>"
    have step: "planetLoop rnd n i pa system c = planetLoop rnd n (Suc i) pa' ?system c'"
      using True g by (subst planetLoop.simps) simp
    have "j < length (planets ?system)" using "1.prems" by simp
    from "1.IH" [OF True refl g [symmetric] refl this] "1.prems"
    show ?thesis unfolding step by (simp add: nth_append)
  next
    case False
    then show ?thesis by (subst planetLoop.simps) simp
  qed
qed

lemma hsl_consumed: "snd (hsl rnd hueR satR ligR c) = c + 3"
  by (simp add: hsl_def Let_def split_def randomInt_eq)

lemma generatePlanets_first:
  "planets (fst (generatePlanets rnd c)) ! 0
     = fst (generatePlanet rnd 0 (fst (randomRange rnd 5 8 c) + 5) (c + 5))"
proof -
  define c2 where "c2 = snd (generateColor rnd ''STAR'' (Suc c))"
  define n where "n = fst (randomInt rnd 7 12 c2)"
  define system0 where
    "system0 = \<lparr>star = \<lparr>Star.radius = fst (randomRange rnd 5 8 c),
                  color = fst (generateColor rnd ''STAR'' (Suc c)), mass = 1\<rparr>,
                planets = [], asteroidBelts = []\<rparr>"
  define pa where "pa = fst (randomRange rnd 5 8 c) + 5"
  have gp: "generatePlanets rnd c = planetLoop rnd n 0 pa system0 (Suc c2)"
    by (simp add: generatePlanets_def Let_def split_def randomRange_eq randomInt_eq
        n_def c2_def system0_def pa_def)
  have c2: "Suc c2 = c + 5"
    by (simp add: c2_def generateColor_def hsl_consumed)
  have n: "int 0 < n"
    unfolding n_def using randomInt_bounds [of 7 12 rnd c2] by simp
  obtain p pa' c' where g: "generatePlanet rnd 0 pa (Suc c2) = (p, pa', c')"
    by (cases "generatePlanet rnd 0 pa (Suc c2)") auto
  let ?system = "system0\<lparr>planets := planets system0 @ [p]\<rparr>"
  have step: "planetLoop rnd n 0 pa system0 (Suc c2) = planetLoop rnd n (Suc 0) pa' ?system c'"
    using n g by (subst planetLoop.simps) simp
  have "planets (fst (generatePlanets rnd c)) ! 0 = planets ?system ! 0"
    unfolding gp step by (rule planetLoop_prefix) simp
  also have "\<dots> = p" by (simp add: system0_def)
  also have "p = fst (generatePlanet rnd 0 pa (c + 5))" using g c2 by simp
  finally show ?thesis by (simp add: pa_def)
qed

lemma planetRadius_consumed: "snd (planetRadius rnd ty c) = Suc c"
  by (simp add: planetRadius_def randomRange_eq)

lemma generateName_consumed: "snd (generateName rnd c) = c + 3"
  by (simp add: generateName_def Let_def split_def randomInt_eq)

lemma generateColor_rocky_consumed: "snd (generateColor rnd ''Rocky'' c) = c + 4"
  by (simp add: generateColor_def Let_def split_def Math_random_eq hsl_consumed)

lemma generatePlanet_type:
  "type (fst (generatePlanet rnd i pa c))
     = planetType i (a (orbit (fst (generatePlanet rnd i pa c)))) (Rep_random_value (rnd (Suc (Suc c))))"
  by (simp add: generatePlanet_def Let_def split_def randomRange_eq Math_random_eq)

lemma generatePlanet_radius:
  "Entity.radius (fst (generatePlanet rnd i pa c))
     = fst (planetRadius rnd (type (fst (generatePlanet rnd i pa c))) (Suc (Suc (Suc c))))"
  by (simp add: generatePlanet_def Let_def split_def randomRange_eq Math_random_eq)

lemma generatePlanet_moons:
  "moons (fst (generatePlanet rnd i pa c))
     = fst (planetMoons rnd i (name (fst (generatePlanet rnd i pa c)))
         (id_str (fst (generatePlanet rnd i pa c)))
         (Entity.radius (fst (generatePlanet rnd i pa c)))
         (type (fst (generatePlanet rnd i pa c)))
         (5 + snd (generateColor rnd (PlanetType_value (type (fst (generatePlanet rnd i pa c))))
            (Suc (Suc (Suc (Suc c)))))))"
  by (simp add: generatePlanet_def Let_def split_def randomRange_eq Math_random_eq
      planetRadius_consumed generateName_consumed)


lemma generateMoon_fields:
  "id_str (fst (generateMoon rnd i pn pid pr m c))
     = ''moon-'' @ string_of_nat i @ ''-'' @ string_of_nat m"
  "parentId (fst (generateMoon rnd i pn pid pr m c)) = pid"
  "a (orbit (fst (generateMoon rnd i pn pid pr m c)))
     = pr + fst (randomRange rnd 5 15 c) + real m * fst (randomRange rnd 4 8 (Suc c))"
  "snd (generateMoon rnd i pn pid pr m c) = c + 6"
  by (simp_all add: generateMoon_def Let_def split_def randomRange_eq)

lemma moonLoop_length:
  "length (fst (moonLoop rnd i pn pid pr num m ms c)) = length ms + nat (num - int m)"
proof (induction rnd i pn pid pr num m ms c rule: moonLoop.induct)
  case (1 rnd i pn pid pr num m ms c)
  show ?case
  proof (cases "int m < num")
    case True
    obtain mo c' where g: "generateMoon rnd i pn pid pr m c = (mo, c')"
      by (cases "generateMoon rnd i pn pid pr m c") auto
    have step: "moonLoop rnd i pn pid pr num m ms c
        = moonLoop rnd i pn pid pr num (Suc m) (ms @ [mo]) c'"
      using True g by (subst moonLoop.simps) simp
    have "length (fst (moonLoop rnd i pn pid pr num (Suc m) (ms @ [mo]) c'))
        = length (ms @ [mo]) + nat (num - int (Suc m))"
      using "1" [OF True g [symmetric] refl] .
    also have "\<dots> = length ms + nat (num - int m)"
      using True by simp
    finally show ?thesis unfolding step .
  next
    case False
    then show ?thesis by (subst moonLoop.simps) simp
  qed
qed

lemma moonLoop_all:
  assumes "\<And>m c. Q m (fst (generateMoon rnd i pn pid pr m c))"
      and "length ms = m"
      and "\<forall>j<length ms. Q j (ms ! j)"
  shows "\<forall>j<length (fst (moonLoop rnd i pn pid pr num m ms c)).
           Q j (fst (moonLoop rnd i pn pid pr num m ms c) ! j)"
  using assms
proof (induction rnd i pn pid pr num m ms c rule: moonLoop.induct)
  case (1 rnd i pn pid pr num m ms c)
  show ?case
  proof (cases "int m < num")
    case True
    obtain mo c' where g: "generateMoon rnd i pn pid pr m c = (mo, c')"
      by (cases "generateMoon rnd i pn pid pr m c") auto
    have "mo = fst (generateMoon rnd i pn pid pr m c)" by (simp add: g)
    then have Qm: "Q m mo" using "1.prems"(1) [of m c] by blast
    have len: "length (ms @ [mo]) = Suc m" using "1.prems"(2) by simp
    have all: "\<forall>j<length (ms @ [mo]). Q j ((ms @ [mo]) ! j)"
      using "1.prems"(2,3) Qm by (auto simp: nth_append less_Suc_eq)
    have step: "moonLoop rnd i pn pid pr num m ms c
        = moonLoop rnd i pn pid pr num (Suc m) (ms @ [mo]) c'"
      using True g by (subst moonLoop.simps) simp
    show ?thesis
      unfolding step using "1.IH" [OF True g [symmetric] refl "1.prems"(1) len all] .
  next
    case False
    then show ?thesis using "1.prems"(3) by (subst (1 2) moonLoop.simps) simp
  qed
qed

lemma planetMoons_all:
  assumes "\<And>m c. Q m (fst (generateMoon rnd i pn pid pr m c))"
  shows "\<forall>j<length (fst (planetMoons rnd i pn pid pr ty c)).
           Q j (fst (planetMoons rnd i pn pid pr ty c) ! j)"
proof (cases "ty = DWARF")
  case True
  then show ?thesis by (simp add: planetMoons_def)
next
  case False
  define num where "num = fst (if ty = GAS_GIANT then randomInt rnd 3 8 c
      else if ty = ICE_GIANT then randomInt rnd 2 5 c else randomInt rnd 0 2 c)"
  have pm: "planetMoons rnd i pn pid pr ty c = moonLoop rnd i pn pid pr num 0 [] (Suc c)"
    using False by (simp add: planetMoons_def Let_def split_def randomInt_eq num_def)
  show ?thesis
    unfolding pm
    by (rule moonLoop_all [where Q = Q and rnd = rnd]) (simp_all add: assms)
qed

lemma generatePlanet_moons_all:
  fixes rnd i pa c
  defines "p \<equiv> fst (generatePlanet rnd i pa c)"
  shows "\<forall>m<length (moons p).
           id_str (moons p ! m) = ''moon-'' @ string_of_nat i @ ''-'' @ string_of_nat m
         \<and> parentId (moons p ! m) = id_str p"
proof -
  have "\<forall>m<length (fst (planetMoons rnd i pn (id_str p) (Entity.radius p) ty c')).
           id_str (fst (planetMoons rnd i pn (id_str p) (Entity.radius p) ty c') ! m)
             = ''moon-'' @ string_of_nat i @ ''-'' @ string_of_nat m
         \<and> parentId (fst (planetMoons rnd i pn (id_str p) (Entity.radius p) ty c') ! m) = id_str p"
    for pn ty c'
  proof (rule planetMoons_all)
    fix m c
    show "id_str (fst (generateMoon rnd i pn (id_str p) (Entity.radius p) m c))
             = ''moon-'' @ string_of_nat i @ ''-'' @ string_of_nat m
         \<and> parentId (fst (generateMoon rnd i pn (id_str p) (Entity.radius p) m c)) = id_str p"
      by (simp add: generateMoon_fields(1,2))
  qed
  then show ?thesis
    unfolding p_def by (subst (1 2 3) generatePlanet_moons) blast
qed

subsection \<open>Decimal numerals in identifiers\<close>

lemma of_char_digit: "d < 10 \<Longrightarrow> (of_char (digit_char d) :: nat) = 48 + d"
  by (simp add: digit_char_def)

lemma string_of_nat_decode:
  "foldl (\<lambda>acc ch. 10 * acc + (of_char ch - 48)) (0 :: nat) (string_of_nat n) = n"
proof (induction n rule: string_of_nat.induct)
  case (1 n)
  show ?case
  proof (cases "n < 10")
    case True
    then show ?thesis
      by (subst string_of_nat.simps) (simp add: of_char_digit)
  next
    case False
    have "n mod 10 < 10" by simp
    then have d: "(of_char (digit_char (n mod 10)) :: nat) = 48 + n mod 10"
      by (rule of_char_digit)
    show ?thesis
      using False "1" [OF False]
      by (subst string_of_nat.simps) (simp add: d)
  qed
qed

lemma string_of_nat_inj: "string_of_nat m = string_of_nat n \<Longrightarrow> m = n"
  by (metis string_of_nat_decode)

lemma digit_char_not_dash: "d < 10 \<Longrightarrow> digit_char d \<noteq> CHR ''-''"
proof
  assume "d < 10" and "digit_char d = CHR ''-''"
  then have "(of_char (digit_char d) :: nat) = of_char CHR ''-''" by simp
  with \<open>d < 10\<close> show False by (simp add: of_char_digit)
qed

lemma string_of_nat_no_dash: "CHR ''-'' \<notin> set (string_of_nat n)"
proof (induction n rule: string_of_nat.induct)
  case (1 n)
  show ?case
  proof (cases "n < 10")
    case True
    then show ?thesis
      using digit_char_not_dash [of n] by (subst string_of_nat.simps) auto
  next
    case False
    have "n mod 10 < 10" by simp
    then have "digit_char (n mod 10) \<noteq> CHR ''-''" by (rule digit_char_not_dash)
    then show ?thesis
      using False "1" [OF False] by (subst string_of_nat.simps) auto
  qed
qed

lemma split_at_unique:
  assumes "ch \<notin> set xs" and "ch \<notin> set xs'" and "xs @ ch # ys = xs' @ ch # ys'"
  shows "xs = xs' \<and> ys = ys'"
  using assms
proof (induction xs arbitrary: xs')
  case Nil
  then show ?case by (cases xs') auto
next
  case (Cons z zs)
  then show ?case by (cases xs') auto
qed

lemma planet_id_inj:
  "''planet-'' @ string_of_nat i = ''planet-'' @ string_of_nat j \<Longrightarrow> i = j"
  by (simp add: string_of_nat_inj)

lemma moon_id_inj:
  assumes "''moon-'' @ string_of_nat i @ ''-'' @ string_of_nat m
         = ''moon-'' @ string_of_nat j @ ''-'' @ string_of_nat n"
  shows "i = j \<and> m = n"
proof -
  have "string_of_nat i @ CHR ''-'' # string_of_nat m = string_of_nat j @ CHR ''-'' # string_of_nat n"
    using assms by simp
  then have "string_of_nat i = string_of_nat j \<and> string_of_nat m = string_of_nat n"
    by (rule split_at_unique [OF string_of_nat_no_dash string_of_nat_no_dash])
  then show ?thesis by (simp add: string_of_nat_inj)
qed

lemma distinct_concat_indexed:
  assumes "\<And>i j m n. i < length xss \<Longrightarrow> j < length xss \<Longrightarrow> m < length (xss ! i) \<Longrightarrow>
             n < length (xss ! j) \<Longrightarrow> xss ! i ! m = xss ! j ! n \<Longrightarrow> i = j \<and> m = n"
  shows "distinct (concat xss)"
  using assms
proof (induction xss rule: rev_induct)
  case Nil
  then show ?case by simp
next
  case (snoc xs xss)
  have IH: "distinct (concat xss)"
  proof (rule snoc.IH)
    fix i j m n
    assume "i < length xss" "j < length xss" "m < length (xss ! i)" "n < length (xss ! j)"
      "xss ! i ! m = xss ! j ! n"
    then show "i = j \<and> m = n"
      using snoc.prems [of i j m n] by (simp add: nth_append)
  qed
  have dx: "distinct xs"
  proof (subst distinct_conv_nth, intro allI impI)
    fix m n assume "m < length xs" "n < length xs" "m \<noteq> n"
    then show "xs ! m \<noteq> xs ! n"
      using snoc.prems [of "length xss" "length xss" m n] by auto
  qed
  have disj: "set (concat xss) \<inter> set xs = {}"
  proof (rule ccontr)
    assume "set (concat xss) \<inter> set xs \<noteq> {}"
    then obtain v where v: "v \<in> set (concat xss)" "v \<in> set xs" by blast
    from v(1) obtain ys where ys: "ys \<in> set xss" "v \<in> set ys" by auto
    from ys(1) obtain i where i: "i < length xss" "xss ! i = ys" by (auto simp: in_set_conv_nth)
    from ys(2) obtain m where m: "m < length ys" "ys ! m = v" by (auto simp: in_set_conv_nth)
    from v(2) obtain n where n: "n < length xs" "xs ! n = v" by (auto simp: in_set_conv_nth)
    have "i = length xss \<and> m = n"
      using snoc.prems [of i "length xss" m n] i m n by (simp add: nth_append)
    with i(1) show False by simp
  qed
  show ?case using IH dx disj by simp
qed

subsection \<open>Order of the moons of a planet\<close>

lemma moonLoop_two:
  "fst (moonLoop rnd i pn pid pr 2 0 [] c)
     = [fst (generateMoon rnd i pn pid pr 0 c), fst (generateMoon rnd i pn pid pr 1 (c + 6))]"
proof -
  obtain m0 c0 where g0: "generateMoon rnd i pn pid pr 0 c = (m0, c0)"
    by (cases "generateMoon rnd i pn pid pr 0 c") auto
  have c0: "c0 = c + 6" using generateMoon_fields(4) [of rnd i pn pid pr 0 c] g0 by simp
  obtain m1 c1 where g1: "generateMoon rnd i pn pid pr 1 c0 = (m1, c1)"
    by (cases "generateMoon rnd i pn pid pr 1 c0") auto
  have "moonLoop rnd i pn pid pr 2 0 [] c = moonLoop rnd i pn pid pr 2 (Suc 0) [m0] c0"
    using g0 by (subst moonLoop.simps) simp
  also have "\<dots> = moonLoop rnd i pn pid pr 2 (Suc (Suc 0)) [m0, m1] c1"
    using g1 by (subst moonLoop.simps) simp
  also have "\<dots> = ([m0, m1], c1)"
    by (subst moonLoop.simps) simp
  finally show ?thesis
    using g0 g1 c0 by simp
qed

lemma stream_moons_first_planet:
  fixes p0 :: Planet
  defines "p0 \<equiv> fst (generatePlanet stream_moons 0 (fst (randomRange stream_moons 5 8 0) + 5) 5)"
  shows "map (\<lambda>mo. a (orbit mo)) (moons p0) = [191 / 10, 169 / 10]"
proof -
  have pa: "fst (randomRange stream_moons 5 8 0) + 5 = 121 / 10"
    by (simp add: randomRange_eq stream_moons.rep_eq)
  have sma: "a (orbit p0) = 60100 / 857"
    unfolding p0_def generatePlanet_fields(3) pa
    by (simp add: randomRange_eq stream_moons.rep_eq)
  have ty: "type p0 = ROCKY"
    unfolding p0_def generatePlanet_type
    unfolding p0_def [symmetric] sma
    by (simp add: planetType_def stream_moons.rep_eq)
  have rad: "Entity.radius p0 = 51 / 10"
    unfolding p0_def generatePlanet_radius
    unfolding p0_def [symmetric] ty
    by (simp add: planetRadius_def randomRange_eq stream_moons.rep_eq)
  have "moons p0 = fst (planetMoons stream_moons 0 (name p0) (id_str p0) (51 / 10) ROCKY 18)"
    unfolding p0_def generatePlanet_moons
    unfolding p0_def [symmetric] ty rad
    by (simp add: generateColor_rocky_consumed)
  also have "\<dots> = fst (moonLoop stream_moons 0 (name p0) (id_str p0) (51 / 10) 2 0 [] 19)"
    by (simp add: planetMoons_def Let_def split_def randomInt_eq stream_moons.rep_eq)
  finally have "moons p0
      = [fst (generateMoon stream_moons 0 (name p0) (id_str p0) (51 / 10) 0 19),
         fst (generateMoon stream_moons 0 (name p0) (id_str p0) (51 / 10) 1 25)]"
    by (simp add: moonLoop_two)
  then show ?thesis
    by (simp add: generateMoon_fields(3) randomRange_eq stream_moons.rep_eq)
qed

lemma stream_moons_system:
  "\<exists>sys. generateSolarSystem stream_moons 800 600 = Inr sys
      \<and> 0 < length (planets sys)
      \<and> map (\<lambda>mo. a (orbit mo)) (moons (planets sys ! 0)) = [191 / 10, 169 / 10]"
proof -
  from generateSolarSystem_struct [of stream_moons 800 600] obtain sys where
    sys: "generateSolarSystem stream_moons 800 600 = Inr sys"
    and ps: "planets sys = planets (fst (generatePlanets stream_moons 0))"
    by blast
  have "7 \<le> length (planets sys)"
    unfolding ps by (rule generatePlanets_props(2) [where Q = "\<lambda>i p. True"]) simp
  then have len: "0 < length (planets sys)" by auto
  have "planets sys ! 0
      = fst (generatePlanet stream_moons 0 (fst (randomRange stream_moons 5 8 0) + 5) 5)"
    unfolding ps using generatePlanets_first [of stream_moons 0] by simp
  then have ms: "map (\<lambda>mo. a (orbit mo)) (moons (planets sys ! 0)) = [191 / 10, 169 / 10]"
    using stream_moons_first_planet by simp
  show ?thesis
    using sys len ms by (intro exI [of _ sys] conjI)
qed

text \<open>
  C3: the orbital radius of a moon is the radius of its planet plus a base offset plus the
  index of the moon times a step, which is meant to put every moon beyond the one before
  it. Both the base offset and the step are drawn inside the expression of each moon, so the
  code does not order the moons: on the stream \<open>stream_moons\<close> the first planet is rocky with
  radius 5.1 and two moons, moon 0 at 5.1 + 14 + 0 = 19.1 and moon 1 at
  5.1 + 5 + 1 * 6.8 = 16.9, inside the orbit of moon 0.
\<close>

theorem moons_not_ordered:
  "\<exists>sys. generateSolarSystem stream_moons 800 600 = Inr sys
      \<and> 0 < length (planets sys)
      \<and> Suc 0 < length (moons (planets sys ! 0))
      \<and> 19 < a (orbit (moons (planets sys ! 0) ! 0))
      \<and> a (orbit (moons (planets sys ! 0) ! Suc 0)) < 17
      \<and> a (orbit (moons (planets sys ! 0) ! Suc 0)) < a (orbit (moons (planets sys ! 0) ! 0))"
proof -
  from stream_moons_system obtain sys where
    sys: "generateSolarSystem stream_moons 800 600 = Inr sys" "0 < length (planets sys)"
    and ms: "map (\<lambda>mo. a (orbit mo)) (moons (planets sys ! 0)) = [191 / 10, 169 / 10]"
    by (elim exE conjE)
  have len: "length (map (\<lambda>mo. a (orbit mo)) (moons (planets sys ! 0))) = 2"
    by (simp only: ms) simp
  then have l2: "length (moons (planets sys ! 0)) = 2" by simp
  have "map (\<lambda>mo. a (orbit mo)) (moons (planets sys ! 0)) ! 0 = 191 / 10"
    by (simp only: ms) simp
  then have a0: "a (orbit (moons (planets sys ! 0) ! 0)) = 191 / 10"
    using l2 by simp
  have "map (\<lambda>mo. a (orbit mo)) (moons (planets sys ! 0)) ! Suc 0 = 169 / 10"
    by (simp only: ms) simp
  then have a1: "a (orbit (moons (planets sys ! 0) ! Suc 0)) = 169 / 10"
    using l2 by simp
  have l: "Suc 0 < length (moons (planets sys ! 0))" using l2 by simp
  have b0: "19 < a (orbit (moons (planets sys ! 0) ! 0))" by (simp add: a0)
  have b1: "a (orbit (moons (planets sys ! 0) ! Suc 0)) < 17" by (simp add: a1)
  have lt: "a (orbit (moons (planets sys ! 0) ! Suc 0)) < a (orbit (moons (planets sys ! 0) ! 0))"
    by (simp add: a0 a1)
  show ?thesis
    using sys l b0 b1 lt by (intro exI [of _ sys] conjI)
qed

subsection \<open>Identifiers of planets and moons\<close>

lemma generatePlanets_moons:
  assumes "i < length (planets (fst (generatePlanets rnd c)))"
      and "m < length (moons (planets (fst (generatePlanets rnd c)) ! i))"
  shows "id_str (planets (fst (generatePlanets rnd c)) ! i) = ''planet-'' @ string_of_nat i"
    and "id_str (moons (planets (fst (generatePlanets rnd c)) ! i) ! m)
           = ''moon-'' @ string_of_nat i @ ''-'' @ string_of_nat m"
    and "parentId (moons (planets (fst (generatePlanets rnd c)) ! i) ! m)
           = id_str (planets (fst (generatePlanets rnd c)) ! i)"
proof -
  define Q :: "nat \<Rightarrow> Planet \<Rightarrow> bool" where "Q = (\<lambda>i p. id_str p = ''planet-'' @ string_of_nat i
      \<and> (\<forall>m<length (moons p).
           id_str (moons p ! m) = ''moon-'' @ string_of_nat i @ ''-'' @ string_of_nat m
         \<and> parentId (moons p ! m) = id_str p))"
  have "Q i (fst (generatePlanet rnd i pa c))" for i pa c
    unfolding Q_def using generatePlanet_moons_all [of rnd i pa c]
    by (simp add: generatePlanet_fields(1))
  then have "\<forall>j<length (planets (fst (generatePlanets rnd c))).
      Q j (planets (fst (generatePlanets rnd c)) ! j)"
    by (rule generatePlanets_props(5))
  then have Q: "Q i (planets (fst (generatePlanets rnd c)) ! i)"
    using assms(1) by blast
  show "id_str (planets (fst (generatePlanets rnd c)) ! i) = ''planet-'' @ string_of_nat i"
    using Q unfolding Q_def by blast
  show "id_str (moons (planets (fst (generatePlanets rnd c)) ! i) ! m)
           = ''moon-'' @ string_of_nat i @ ''-'' @ string_of_nat m"
    using Q assms(2) unfolding Q_def by blast
  show "parentId (moons (planets (fst (generatePlanets rnd c)) ! i) ! m)
           = id_str (planets (fst (generatePlanets rnd c)) ! i)"
    using Q assms(2) unfolding Q_def by blast
qed

text \<open>
  C10: in every generated system the ids of the planets are pairwise distinct, every moon
  carries the id of the planet that owns it as \<open>parentId\<close>, the ids of all the moons of
  the system are pairwise distinct, and the only planet whose id is the \<open>parentId\<close> of a
  moon is the planet that owns the moon.
\<close>

theorem ids_resolve:
  assumes "generateSolarSystem rnd width height = Inr sys"
  shows "distinct (map id_str (planets sys))
       \<and> (\<forall>p\<in>set (planets sys). \<forall>mo\<in>set (moons p). parentId mo = id_str p)
       \<and> distinct (map id_str (concat (map moons (planets sys))))
       \<and> (\<forall>p\<in>set (planets sys). \<forall>mo\<in>set (moons p). \<forall>q\<in>set (planets sys).
            id_str q = parentId mo \<longrightarrow> q = p)"
proof -
  define ps where "ps = planets sys"
  from generateSolarSystem_struct [of rnd width height] assms
  have gp: "ps = planets (fst (generatePlanets rnd 0))" unfolding ps_def by auto
  have pid: "id_str (ps ! i) = ''planet-'' @ string_of_nat i" if "i < length ps" for i
  proof -
    have "id_str (fst (generatePlanet rnd i pa c)) = ''planet-'' @ string_of_nat i" for i pa c
      by (rule generatePlanet_fields(1))
    then have "\<forall>j<length (planets (fst (generatePlanets rnd 0))).
        id_str (planets (fst (generatePlanets rnd 0)) ! j) = ''planet-'' @ string_of_nat j"
      by (rule generatePlanets_props(5) [where Q = "\<lambda>i p. id_str p = ''planet-'' @ string_of_nat i"])
    then show ?thesis using that unfolding gp by blast
  qed
  have mid: "id_str (moons (ps ! i) ! m) = ''moon-'' @ string_of_nat i @ ''-'' @ string_of_nat m"
    and par: "parentId (moons (ps ! i) ! m) = id_str (ps ! i)"
    if "i < length ps" "m < length (moons (ps ! i))" for i m
    using generatePlanets_moons(2,3) [of i rnd 0 m] that unfolding gp by blast+
  have pinj: "i = j" if "i < length ps" "j < length ps" "id_str (ps ! i) = id_str (ps ! j)" for i j
    using that pid [of i] pid [of j] planet_id_inj [of i j] by simp
  have d1: "distinct (map id_str ps)"
  proof (subst distinct_conv_nth, intro allI impI)
    fix i j assume "i < length (map id_str ps)" "j < length (map id_str ps)" "i \<noteq> j"
    then show "map id_str ps ! i \<noteq> map id_str ps ! j"
      using pinj [of i j] by auto
  qed
  have d2: "\<forall>p\<in>set ps. \<forall>mo\<in>set (moons p). parentId mo = id_str p"
  proof (intro ballI)
    fix p mo assume "p \<in> set ps" "mo \<in> set (moons p)"
    then obtain i m where "i < length ps" "ps ! i = p" "m < length (moons p)" "moons p ! m = mo"
      by (auto simp: in_set_conv_nth)
    then show "parentId mo = id_str p" using par [of i m] by auto
  qed
  have d3: "distinct (map id_str (concat (map moons ps)))"
  proof -
    have "distinct (concat (map (\<lambda>p. map id_str (moons p)) ps))"
    proof (rule distinct_concat_indexed)
      fix i j m n
      assume "i < length (map (\<lambda>p. map id_str (moons p)) ps)"
        "j < length (map (\<lambda>p. map id_str (moons p)) ps)"
        "m < length (map (\<lambda>p. map id_str (moons p)) ps ! i)"
        "n < length (map (\<lambda>p. map id_str (moons p)) ps ! j)"
        "map (\<lambda>p. map id_str (moons p)) ps ! i ! m = map (\<lambda>p. map id_str (moons p)) ps ! j ! n"
      then have r: "i < length ps" "j < length ps" "m < length (moons (ps ! i))"
        "n < length (moons (ps ! j))"
        "id_str (moons (ps ! i) ! m) = id_str (moons (ps ! j) ! n)"
        by simp_all
      show "i = j \<and> m = n"
        using r(5) unfolding mid [OF r(1,3)] mid [OF r(2,4)] by (rule moon_id_inj)
    qed
    then show ?thesis by (simp add: map_concat comp_def)
  qed
  have d4: "\<forall>p\<in>set ps. \<forall>mo\<in>set (moons p). \<forall>q\<in>set ps. id_str q = parentId mo \<longrightarrow> q = p"
  proof (intro ballI impI)
    fix p mo q assume a: "p \<in> set ps" "mo \<in> set (moons p)" "q \<in> set ps" "id_str q = parentId mo"
    from a(1) obtain i where i: "i < length ps" "ps ! i = p" by (auto simp: in_set_conv_nth)
    from a(3) obtain j where j: "j < length ps" "ps ! j = q" by (auto simp: in_set_conv_nth)
    have "id_str q = id_str p" using a(4) d2 a(1,2) by simp
    then have "j = i" using pinj [of j i] i j by simp
    then show "q = p" using i j by simp
  qed
  show ?thesis
    using d1 d2 d3 d4 unfolding ps_def by (intro conjI)
qed

theorem ids_resolve_witness:
  "\<exists>sys. generateSolarSystem stream_moons 800 600 = Inr sys
      \<and> planets sys ! 0 \<in> set (planets sys)
      \<and> moons (planets sys ! 0) ! 0 \<in> set (moons (planets sys ! 0))
      \<and> parentId (moons (planets sys ! 0) ! 0) = id_str (planets sys ! 0)
      \<and> distinct (map id_str (planets sys))
      \<and> distinct (map id_str (concat (map moons (planets sys))))"
proof -
  from stream_moons_system obtain sys where
    sys: "generateSolarSystem stream_moons 800 600 = Inr sys" and len: "0 < length (planets sys)"
    and ms: "map (\<lambda>mo. a (orbit mo)) (moons (planets sys ! 0)) = [191 / 10, 169 / 10]"
    by (elim exE conjE)
  have "length (map (\<lambda>mo. a (orbit mo)) (moons (planets sys ! 0))) = 2"
    by (simp only: ms) simp
  then have l: "0 < length (moons (planets sys ! 0))" by simp
  have p: "planets sys ! 0 \<in> set (planets sys)" using len by simp
  have m: "moons (planets sys ! 0) ! 0 \<in> set (moons (planets sys ! 0))" using l by simp
  from ids_resolve [OF sys] have r: "distinct (map id_str (planets sys))"
    "\<forall>p\<in>set (planets sys). \<forall>mo\<in>set (moons p). parentId mo = id_str p"
    "distinct (map id_str (concat (map moons (planets sys))))"
    by blast+
  have "parentId (moons (planets sys ! 0) ! 0) = id_str (planets sys ! 0)"
    using r(2) p m by blast
  with sys p m r(1,3) show ?thesis
    by (intro exI [of _ sys] conjI)
qed

end
